theory Spec2Isabelle
  imports Main "HOL-Library.Multiset"
begin

section \<open>Data model\<close>

text \<open>
  A tweet is the dictionary built by \<^verbatim>\<open>PlaywrightScraper._extract_tweet_data\<close>. Only the
  fields that the modelled code reads are kept. \<open>tweet_id\<close> is the value of
  \<^verbatim>\<open>tweet.get('id')\<close>; the empty string stands for every falsy value (key missing,
  \<^verbatim>\<open>None\<close>, \<^verbatim>\<open>''\<close>), which all modelled paths treat alike through \<^verbatim>\<open>if tweet_id\<close>.
  A character is a code point below 256.
\<close>

record tweet =
  tweet_id :: string
  created_at :: string
  full_text :: string
  followers_count :: int
  verified :: bool
  is_retweet :: bool
  is_reply :: bool
  lang :: string

section \<open>Python dictionaries with insertion order\<close>

text \<open>
  A Python \<^verbatim>\<open>dict\<close> keeps its keys in insertion order; assigning to a key that is
  present replaces the value in place, assigning to a new key appends it.
\<close>

type_synonym tweet_dict = "(string \<times> tweet) list"

fun dict_set :: "tweet_dict \<Rightarrow> string \<Rightarrow> tweet \<Rightarrow> tweet_dict" where
  "dict_set [] k v = [(k, v)]"
| "dict_set ((k', v') # d) k v =
     (if k' = k then (k, v) # d else (k', v') # dict_set d k v)"

definition dict_keys :: "tweet_dict \<Rightarrow> string list" where
  "dict_keys d = map fst d"

definition dict_values :: "tweet_dict \<Rightarrow> tweet list" where
  "dict_values d = map snd d"

definition dict_contains :: "tweet_dict \<Rightarrow> string \<Rightarrow> bool" where
  "dict_contains d k = (k \<in> set (dict_keys d))"

text \<open>
  The keys of a dictionary filled from a list of keys: each key stands where it is first
  assigned.
\<close>

definition first_seen :: "string list \<Rightarrow> string list" where
  "first_seen xs = foldl (\<lambda>acc x. if x \<in> set acc then acc else acc @ [x]) [] xs"

section \<open>CheckpointManager\<close>

subsection \<open>merge_tweets\<close>

text \<open>
  Both loops of \<^verbatim>\<open>merge_tweets\<close> run \<^verbatim>\<open>if tweet_id: all_tweets[tweet_id] = tweet\<close>
  over their list (the second one also counts the new keys for a log line).
\<close>

fun merge_loop :: "tweet_dict \<Rightarrow> tweet list \<Rightarrow> tweet_dict" where
  "merge_loop d [] = d"
| "merge_loop d (t # ts) =
     merge_loop (if tweet_id t \<noteq> [] then dict_set d (tweet_id t) t else d) ts"

definition merge_tweets :: "tweet list \<Rightarrow> tweet list \<Rightarrow> tweet list" where
  "merge_tweets existing_tweets new_tweets =
     dict_values (merge_loop (merge_loop [] existing_tweets) new_tweets)"

subsection \<open>The sort key of the archive\<close>

text \<open>
  \<^verbatim>\<open>int(x.get('id', '0')) if x.get('id', '').isdigit() else 0\<close>.
  \<^verbatim>\<open>str.isdigit\<close> accepts the decimal digits and, below 256, the superscripts two, three
  and one. \<^verbatim>\<open>int\<close> raises \<^verbatim>\<open>ValueError\<close> (\<open>None\<close>) on a digit that is not decimal and on
  a string of more digits than the conversion limit, 4300 by default.
\<close>

definition is_decimal :: "char \<Rightarrow> bool" where
  "is_decimal c = (c \<in> set ''0123456789'')"

definition is_digit :: "char \<Rightarrow> bool" where
  "is_digit c = (is_decimal c \<or> (of_char c :: nat) \<in> {178, 179, 185})"

definition py_isdigit :: "string \<Rightarrow> bool" where
  "py_isdigit s = (s \<noteq> [] \<and> list_all is_digit s)"

definition int_max_str_digits :: nat where
  "int_max_str_digits = 4300"

definition py_int :: "string \<Rightarrow> int option" where
  "py_int s =
     (if list_all is_decimal s \<and> length s \<le> int_max_str_digits
      then Some (foldl (\<lambda>n c. 10 * n + (int (of_char c) - 48)) 0 s)
      else None)"

definition id_key :: "tweet \<Rightarrow> int option" where
  "id_key x = (if py_isdigit (tweet_id x) then py_int (tweet_id x) else Some 0)"

definition key_ok :: "tweet \<Rightarrow> bool" where
  "key_ok x = (id_key x \<noteq> None)"

text \<open>
  \<^verbatim>\<open>sorted(xs, key=k, reverse=True)\<close> computes the key of every element, so it raises when
  one key does. Otherwise it is a stable sort on the reversed comparison: elements with
  equal keys keep their order.
\<close>

definition sorted_reverse :: "tweet list \<Rightarrow> tweet list option" where
  "sorted_reverse xs =
     (if list_all key_ok xs then Some (sort_key (\<lambda>x. - the (id_key x)) xs) else None)"

subsection \<open>save_all_tweets\<close>

text \<open>
  The first loop keeps the first tweet of every truthy id:
  \<^verbatim>\<open>if tweet_id and tweet_id not in unique_tweets: unique_tweets[tweet_id] = tweet\<close>.
\<close>

fun unique_loop :: "tweet_dict \<Rightarrow> tweet list \<Rightarrow> tweet_dict" where
  "unique_loop d [] = d"
| "unique_loop d (t # ts) =
     unique_loop (if tweet_id t \<noteq> [] \<and> \<not> dict_contains d (tweet_id t)
                  then dict_set d (tweet_id t) t else d) ts"

definition sorted_tweets :: "tweet list \<Rightarrow> tweet list option" where
  "sorted_tweets all_tweets = sorted_reverse (dict_values (unique_loop [] all_tweets))"

text \<open>
  The archive must list its tweets by numeric id, newest first.
\<close>

definition sorted_by_id_desc :: "tweet list \<Rightarrow> bool" where
  "sorted_by_id_desc xs =
     (list_all key_ok xs \<and> sorted_wrt (\<lambda>x y. the (id_key x) \<ge> the (id_key y)) xs)"

subsection \<open>The merge law as the specification words it\<close>

text \<open>
  A mapping keyed by id; all existing items are inserted first, then all new items are
  inserted or overwrite. The result of the merge is the value set (\<open>ran\<close>) of the mapping.
\<close>

definition has_id :: "tweet \<Rightarrow> bool" where
  "has_id t = (tweet_id t \<noteq> [])"

definition spec_insert_all :: "(string \<rightharpoonup> tweet) \<Rightarrow> tweet list \<Rightarrow> (string \<rightharpoonup> tweet)" where
  "spec_insert_all m ts = foldl (\<lambda>m t. m(tweet_id t \<mapsto> t)) m ts"

definition spec_merge_mapping :: "tweet list \<Rightarrow> tweet list \<Rightarrow> (string \<rightharpoonup> tweet)" where
  "spec_merge_mapping existing new =
     spec_insert_all (spec_insert_all Map.empty existing) new"

subsection \<open>Files\<close>

text \<open>
  A file is absent, holds a JSON document, or holds a torn document: \<^verbatim>\<open>open(f, 'w')\<close>
  truncates before \<^verbatim>\<open>json.dump\<close> writes, so a write can fail before the file is touched
  or after it was truncated. \<^verbatim>\<open>save_checkpoint\<close> and \<^verbatim>\<open>save_all_tweets\<close> catch every
  exception of the write, log it and return.
\<close>

datatype 'a json_file = Absent | Corrupt | Written 'a

datatype write_outcome = WriteOk | OpenFails | DumpFails

fun write_file :: "write_outcome \<Rightarrow> 'a \<Rightarrow> 'a json_file \<Rightarrow> 'a json_file" where
  "write_file WriteOk content old = Written content"
| "write_file OpenFails content old = old"
| "write_file DumpFails content old = Corrupt"

text \<open>
  The checkpoint dictionary built by \<^verbatim>\<open>XScraper.scrape_user_tweets\<close> and the document
  written by \<^verbatim>\<open>save_all_tweets\<close>; the user name, the user data and the time stamps are
  left out.
\<close>

record checkpoint =
  total_tweets :: nat
  oldest_tweet_id :: "string option"
  oldest_tweet_date :: "string option"
  newest_tweet_id :: "string option"
  newest_tweet_date :: "string option"
  session_count :: int
  last_session_tweets :: nat

record archive =
  tweet_count :: nat
  archive_session_count :: int
  archive_oldest_tweet_date :: "string option"
  tweets :: "tweet list"

record disk =
  checkpoint_file :: "checkpoint json_file"
  tweets_file :: "archive json_file"

definition load_checkpoint :: "disk \<Rightarrow> checkpoint option" where
  "load_checkpoint d = (case checkpoint_file d of Written c \<Rightarrow> Some c | _ \<Rightarrow> None)"

definition load_existing_tweets :: "disk \<Rightarrow> tweet list" where
  "load_existing_tweets d = (case tweets_file d of Written a \<Rightarrow> tweets a | _ \<Rightarrow> [])"

text \<open>
  \<^verbatim>\<open>save_checkpoint\<close> creates the user directory in \<^verbatim>\<open>get_checkpoint_file\<close> before its
  \<^verbatim>\<open>try\<close>: a failure there is raised to the caller (\<open>Inl\<close>).
\<close>

definition save_checkpoint :: "bool \<Rightarrow> write_outcome \<Rightarrow> checkpoint \<Rightarrow> disk \<Rightarrow> string + disk" where
  "save_checkpoint mkdir_ok w checkpoint_data d =
     (if \<not> mkdir_ok then Inl ''mkdir failed''
      else Inr (d\<lparr>checkpoint_file := write_file w checkpoint_data (checkpoint_file d)\<rparr>))"

definition output_data :: "tweet list \<Rightarrow> checkpoint option \<Rightarrow> archive" where
  "output_data ts checkpoint_data =
     \<lparr>tweet_count = length ts,
      archive_session_count = (case checkpoint_data of Some c \<Rightarrow> session_count c | None \<Rightarrow> 1),
      archive_oldest_tweet_date =
        (case checkpoint_data of Some c \<Rightarrow> oldest_tweet_date c | None \<Rightarrow> None),
      tweets = ts\<rparr>"

text \<open>
  The dedup, the sort and the write are inside one \<^verbatim>\<open>try\<close>: when the sort raises, nothing
  is written and 0 is returned.
\<close>

definition save_all_tweets :: "write_outcome \<Rightarrow> tweet list \<Rightarrow> checkpoint option \<Rightarrow> disk \<Rightarrow> disk \<times> nat" where
  "save_all_tweets w all_tweets checkpoint_data d =
     (case sorted_tweets all_tweets of
        None \<Rightarrow> (d, 0)
      | Some ts \<Rightarrow>
          (d\<lparr>tweets_file := write_file w (output_data ts checkpoint_data) (tweets_file d)\<rparr>,
           if w = WriteOk then length ts else 0))"

section \<open>PlaywrightScraper\<close>

text \<open>
  The attributes of \<^verbatim>\<open>self\<close> that the crawl reads or writes. \<open>existing_tweet_ids\<close> is
  \<open>None\<close> until a session assigns the attribute (\<^verbatim>\<open>hasattr\<close> is false).
\<close>

record scraper =
  all_tweets :: "tweet list"
  scraped_tweet_ids :: "string set"
  existing_tweet_ids :: "string set option"
  scroll_attempts_without_new :: int
  max_tweets_per_session :: "int option"
  max_scroll_attempts :: int
  max_attempts_without_new :: int
  overlap_threshold :: int

subsection \<open>The response listener\<close>

text \<open>
  \<^verbatim>\<open>_parse_tweets_from_timeline\<close> (and \<^verbatim>\<open>_parse_single_tweet\<close>, for one result) hand
  every extracted tweet to the same guarded append. An entry is the result of
  \<^verbatim>\<open>_extract_tweet_data\<close>: \<open>None\<close> when extraction failed.
\<close>

definition append_tweet :: "scraper \<Rightarrow> tweet option \<Rightarrow> scraper" where
  "append_tweet self parsed_tweet =
     (case parsed_tweet of
        None \<Rightarrow> self
      | Some t \<Rightarrow>
          if tweet_id t \<noteq> [] \<and> tweet_id t \<notin> scraped_tweet_ids self \<and>
             (case existing_tweet_ids self of None \<Rightarrow> True | Some ex \<Rightarrow> tweet_id t \<notin> ex)
          then self\<lparr>all_tweets := all_tweets self @ [t],
                    scraped_tweet_ids := insert (tweet_id t) (scraped_tweet_ids self)\<rparr>
          else self)"

definition parse_tweets_from_timeline :: "scraper \<Rightarrow> tweet option list \<Rightarrow> scraper" where
  "parse_tweets_from_timeline self entries = foldl append_tweet self entries"

subsection \<open>The scroll loop\<close>

text \<open>
  What the browser does during one iteration of \<^verbatim>\<open>_scroll_timeline\<close>. The listener runs
  only while the loop is suspended in an \<^verbatim>\<open>await\<close>: \<open>arrived\<close> are the entries it
  receives during the scroll and the sleep, \<open>arrived_late\<close> during the evaluation of the
  bottom test, \<open>arrived_refresh\<close> during the refresh of every hundredth iteration.
  \<open>scroll_error\<close> is the exception of the scroll call, if it raises (an exception of a
  later browser call of the iteration is left out); \<open>elapsed_over_600\<close> is the outcome
  of the clock test \<^verbatim>\<open>elapsed_time > 600\<close>.
\<close>

record scroll_event =
  scroll_error :: "string option"
  arrived :: "tweet option list"
  is_at_bottom :: bool
  arrived_late :: "tweet option list"
  arrived_refresh :: "tweet option list"
  elapsed_over_600 :: bool

text \<open>
  The local variables of \<^verbatim>\<open>_scroll_timeline\<close> that live across iterations, and the
  \<^verbatim>\<open>Found overlap zone!\<close> lines it logs (the overlap count and the number of tweets
  cleared).
\<close>

record scroll_locals =
  scroll_attempts :: nat
  resume_point_found :: bool
  overlap_log :: "(int \<times> nat) list"

datatype stop =
    Ceiling
  | ZeroExtracted
  | ResumeNotFound
  | NoNewTweets
  | SessionLimit
  | AtBottom
  | Stuck
  | Raised string

definition truthy_str :: "string option \<Rightarrow> bool" where
  "truthy_str r = (case r of None \<Rightarrow> False | Some x \<Rightarrow> x \<noteq> [])"

definition truthy_int :: "int option \<Rightarrow> bool" where
  "truthy_int m = (case m of None \<Rightarrow> False | Some x \<Rightarrow> x \<noteq> 0)"

definition overlap_count :: "scraper \<Rightarrow> string set \<Rightarrow> int" where
  "overlap_count self existing =
     int (length (filter (\<lambda>t. tweet_id t \<in> existing) (all_tweets self)))"

text \<open>
  The resume-overlap block. It returns \<^verbatim>\<open>self\<close>, the locals and \<^verbatim>\<open>new_tweets\<close>.
\<close>

definition overlap_check ::
  "string option \<Rightarrow> string set \<Rightarrow> scraper \<Rightarrow> scroll_locals \<Rightarrow> int \<Rightarrow> scraper \<times> scroll_locals \<times> int" where
  "overlap_check resume_from_tweet_id existing self loc new_tweets =
     (if truthy_str resume_from_tweet_id \<and> \<not> resume_point_found loc \<and> existing \<noteq> {} \<and>
         overlap_count self existing \<ge> overlap_threshold self
      then (self\<lparr>all_tweets := [], scraped_tweet_ids := {}, scroll_attempts_without_new := 0\<rparr>,
            loc\<lparr>resume_point_found := True,
                overlap_log := overlap_log loc @
                  [(overlap_count self existing, length (all_tweets self))]\<rparr>,
            0)
      else (self, loc, new_tweets))"

text \<open>
  The bookkeeping of the streak without new tweets, with its three exits.
\<close>

definition streak_update :: "scraper \<Rightarrow> scroll_locals \<Rightarrow> int \<Rightarrow> scraper \<times> stop option" where
  "streak_update self loc new_tweets =
     (if new_tweets > 0 then (self\<lparr>scroll_attempts_without_new := 0\<rparr>, None)
      else
        let self = self\<lparr>scroll_attempts_without_new := scroll_attempts_without_new self + 1\<rparr> in
        if scroll_attempts loc \<ge> 20 \<and> length (all_tweets self) = 0 then (self, Some ZeroExtracted)
        else if \<not> resume_point_found loc \<and> scroll_attempts_without_new self \<ge> 100
          then (self, Some ResumeNotFound)
        else if resume_point_found loc \<and>
                scroll_attempts_without_new self \<ge> max_attempts_without_new self
          then (self, Some NoNewTweets)
        else (self, None))"

definition session_limit_reached :: "scraper \<Rightarrow> scroll_locals \<Rightarrow> bool" where
  "session_limit_reached self loc =
     (resume_point_found loc \<and> truthy_int (max_tweets_per_session self) \<and>
      int (length (all_tweets self)) \<ge> the (max_tweets_per_session self))"

text \<open>
  The rest of the iteration after the session limit test: the bottom test, the refresh
  and the clock test.
\<close>

definition iteration_tail :: "scroll_event \<Rightarrow> scraper \<Rightarrow> scroll_locals \<Rightarrow> scraper \<times> stop option" where
  "iteration_tail ev self loc =
     (let self = parse_tweets_from_timeline self (arrived_late ev) in
      if is_at_bottom ev \<and> scroll_attempts_without_new self > 10 then (self, Some AtBottom)
      else
        let self = (if scroll_attempts loc mod 100 = 0
                    then parse_tweets_from_timeline self (arrived_refresh ev) else self) in
        if elapsed_over_600 ev \<and> length (all_tweets self) = 0 then (self, Some Stuck)
        else (self, None))"

text \<open>
  One iteration of the \<^verbatim>\<open>while\<close> body; \<open>loc\<close> already holds the incremented
  \<^verbatim>\<open>scroll_attempts\<close>.
\<close>

definition scroll_iteration ::
  "string option \<Rightarrow> string set \<Rightarrow> scroll_event \<Rightarrow> scraper \<Rightarrow> scroll_locals \<Rightarrow>
   scraper \<times> scroll_locals \<times> stop option" where
  "scroll_iteration resume_from_tweet_id existing ev self loc =
     (let tweets_before = length (all_tweets self) in
      case scroll_error ev of
        Some e \<Rightarrow> (self, loc, Some (Raised e))
      | None \<Rightarrow>
          let self = parse_tweets_from_timeline self (arrived ev);
              tweets_after = length (all_tweets self);
              new_tweets = int tweets_after - int tweets_before;
              (self, loc, new_tweets) =
                 overlap_check resume_from_tweet_id existing self loc new_tweets;
              (self, stopped) = streak_update self loc new_tweets
          in
          if stopped \<noteq> None then (self, loc, stopped)
          else if session_limit_reached self loc then (self, loc, Some SessionLimit)
          else let (self, stopped) = iteration_tail ev self loc in (self, loc, stopped))"

text \<open>
  No statement of the iteration assigns the configuration attributes, the dedup seed set or
  the attempt counter.
\<close>

lemma append_tweet_frame:
  "existing_tweet_ids (append_tweet self p) = existing_tweet_ids self \<and>
   scroll_attempts_without_new (append_tweet self p) = scroll_attempts_without_new self \<and>
   max_tweets_per_session (append_tweet self p) = max_tweets_per_session self \<and>
   max_scroll_attempts (append_tweet self p) = max_scroll_attempts self \<and>
   max_attempts_without_new (append_tweet self p) = max_attempts_without_new self \<and>
   overlap_threshold (append_tweet self p) = overlap_threshold self"
  by (simp add: append_tweet_def split: option.split)

lemma parse_tweets_frame:
  "existing_tweet_ids (parse_tweets_from_timeline self ps) = existing_tweet_ids self \<and>
   scroll_attempts_without_new (parse_tweets_from_timeline self ps) =
     scroll_attempts_without_new self \<and>
   max_tweets_per_session (parse_tweets_from_timeline self ps) = max_tweets_per_session self \<and>
   max_scroll_attempts (parse_tweets_from_timeline self ps) = max_scroll_attempts self \<and>
   max_attempts_without_new (parse_tweets_from_timeline self ps) =
     max_attempts_without_new self \<and>
   overlap_threshold (parse_tweets_from_timeline self ps) = overlap_threshold self"
  unfolding parse_tweets_from_timeline_def
  by (induction ps arbitrary: self) (simp_all add: append_tweet_frame)

definition same_config :: "scraper \<Rightarrow> scraper \<Rightarrow> bool" where
  "same_config self' self =
     (existing_tweet_ids self' = existing_tweet_ids self \<and>
      max_tweets_per_session self' = max_tweets_per_session self \<and>
      max_scroll_attempts self' = max_scroll_attempts self \<and>
      max_attempts_without_new self' = max_attempts_without_new self \<and>
      overlap_threshold self' = overlap_threshold self)"

lemma same_config_refl: "same_config self self"
  by (simp add: same_config_def)

lemma same_config_trans: "same_config c b \<Longrightarrow> same_config b a \<Longrightarrow> same_config c a"
  by (simp add: same_config_def)

lemma parse_tweets_same_config: "same_config (parse_tweets_from_timeline self ps) self"
  by (simp add: same_config_def parse_tweets_frame)

lemma overlap_check_frame:
  "overlap_check r ex self loc n = (self', loc', n') \<Longrightarrow>
   same_config self' self \<and> scroll_attempts loc' = scroll_attempts loc"
  by (auto simp: overlap_check_def same_config_def split: if_splits)

lemma streak_update_frame:
  "streak_update self loc n = (self', st) \<Longrightarrow> same_config self' self"
  by (auto simp: streak_update_def same_config_def Let_def split: if_splits)

lemma iteration_tail_frame:
  "iteration_tail ev self loc = (self', st) \<Longrightarrow> same_config self' self"
  by (auto simp: iteration_tail_def same_config_def Let_def parse_tweets_frame split: if_splits)

lemma scroll_iteration_frame:
  assumes "scroll_iteration r ex ev self loc = (self', loc', st)"
  shows "same_config self' self \<and> scroll_attempts loc' = scroll_attempts loc"
proof (cases "scroll_error ev")
  case (Some e)
  with assms show ?thesis by (simp add: scroll_iteration_def same_config_refl)
next
  case None
  define s1 where "s1 = parse_tweets_from_timeline self (arrived ev)"
  obtain s2 l2 n2 where oc:
    "overlap_check r ex s1 loc (int (length (all_tweets s1)) - int (length (all_tweets self)))
       = (s2, l2, n2)"
    by (cases "overlap_check r ex s1 loc
         (int (length (all_tweets s1)) - int (length (all_tweets self)))") auto
  obtain s3 st3 where su: "streak_update s2 l2 n2 = (s3, st3)"
    by (cases "streak_update s2 l2 n2") auto
  obtain s4 st4 where it: "iteration_tail ev s3 l2 = (s4, st4)"
    by (cases "iteration_tail ev s3 l2") auto
  have c3: "same_config s3 self"
    using overlap_check_frame[OF oc] streak_update_frame[OF su]
      parse_tweets_same_config[of self "arrived ev"]
    unfolding s1_def by (blast intro: same_config_trans)
  have c4: "same_config s4 self"
    using iteration_tail_frame[OF it] c3 by (blast intro: same_config_trans)
  have l2: "scroll_attempts l2 = scroll_attempts loc"
    using overlap_check_frame[OF oc] by simp
  have "(self', loc', st) =
      (if st3 \<noteq> None then (s3, l2, st3)
       else if session_limit_reached s3 l2 then (s3, l2, Some SessionLimit)
       else (s4, l2, st4))"
    using assms None oc su it
    by (auto simp: scroll_iteration_def Let_def s1_def)
  then show ?thesis using c3 c4 l2 by (auto split: if_splits)
qed

text \<open>
  The \<^verbatim>\<open>while scroll_attempts < self.max_scroll_attempts\<close> loop. The event of iteration
  \<open>n\<close> is \<open>events n\<close>.
\<close>

function scroll_loop ::
  "string option \<Rightarrow> string set \<Rightarrow> (nat \<Rightarrow> scroll_event) \<Rightarrow> scraper \<Rightarrow> scroll_locals \<Rightarrow>
   scraper \<times> scroll_locals \<times> stop" where
  "scroll_loop resume_from_tweet_id existing events self loc =
     (if int (scroll_attempts loc) < max_scroll_attempts self then
        let loc = loc\<lparr>scroll_attempts := scroll_attempts loc + 1\<rparr> in
        (case scroll_iteration resume_from_tweet_id existing (events (scroll_attempts loc))
                self loc of
           (self', loc', Some r) \<Rightarrow> (self', loc', r)
         | (self', loc', None) \<Rightarrow> scroll_loop resume_from_tweet_id existing events self' loc')
      else (self, loc, Ceiling))"
  by pat_completeness auto
termination
proof (relation "measure (\<lambda>(r, ex, ev, s, l). nat (max_scroll_attempts s - int (scroll_attempts l)))",
    goal_cases)
  case 1
  show ?case by simp
next
  case (2 r ex ev self loc x xa y xb ya)
  from 2 have x: "x = loc\<lparr>scroll_attempts := scroll_attempts loc + 1\<rparr>"
    by blast
  from 2 have "scroll_iteration r ex (ev (scroll_attempts x)) self x = (xa, xb, None)"
    by (metis prod.collapse prod.inject)
  from scroll_iteration_frame[OF this]
  have f: "scroll_attempts xb = scroll_attempts x" "max_scroll_attempts xa = max_scroll_attempts self"
    by (simp_all add: same_config_def)
  have "scroll_attempts x = scroll_attempts loc + 1" unfolding x by simp
  with f 2(1) show ?case by simp
qed

declare scroll_loop.simps [simp del]

definition scroll_timeline ::
  "string option \<Rightarrow> string set \<Rightarrow> (nat \<Rightarrow> scroll_event) \<Rightarrow> scraper \<Rightarrow> scraper \<times> scroll_locals \<times> stop" where
  "scroll_timeline resume_from_tweet_id existing events self =
     scroll_loop resume_from_tweet_id existing events
       (self\<lparr>scroll_attempts_without_new := 0\<rparr>)
       \<lparr>scroll_attempts = 0, resume_point_found = \<not> truthy_str resume_from_tweet_id,
        overlap_log = []\<rparr>"

subsection \<open>scrape_user_tweets\<close>

text \<open>
  The browser during one call of \<^verbatim>\<open>PlaywrightScraper.scrape_user_tweets\<close>: whether the
  page exists, the exception of the navigation if it raises, the entries the listener
  receives while the profile page loads, whether the page shows that the account does not
  exist, and the events of the scroll loop.
\<close>

record session_env =
  page_initialized :: bool
  goto_error :: "string option"
  arrived_on_load :: "tweet option list"
  account_missing :: bool
  scroll_events :: "nat \<Rightarrow> scroll_event"

text \<open>
  The returned dictionary: the \<^verbatim>\<open>'error'\<close> key, if present, and \<^verbatim>\<open>'tweets'\<close>.
\<close>

record scrape_result =
  error :: "string option"
  result_tweets :: "tweet list"

text \<open>
  The reset at the start of a session, also done by \<^verbatim>\<open>_prepare_scraping_session\<close>.
\<close>

definition prepare_scraping_session :: "int option \<Rightarrow> string set option \<Rightarrow> scraper \<Rightarrow> scraper" where
  "prepare_scraping_session max_tweets existing self =
     self\<lparr>scraped_tweet_ids := {}, all_tweets := [], max_tweets_per_session := max_tweets,
          existing_tweet_ids := Some (case existing of None \<Rightarrow> {} | Some ex \<Rightarrow> ex)\<rparr>"

text \<open>
  The session up to the end of the scroll: reset, page load, scroll loop. The loop gets
  \<^verbatim>\<open>self.existing_tweet_ids\<close> as its \<^verbatim>\<open>existing_tweet_ids\<close>.
\<close>

definition session_scroll ::
  "session_env \<Rightarrow> string option \<Rightarrow> int option \<Rightarrow> string set option \<Rightarrow> scraper \<Rightarrow>
   scraper \<times> scroll_locals \<times> stop" where
  "session_scroll env resume_from_tweet_id max_tweets existing self =
     (let self = prepare_scraping_session max_tweets existing self;
          self = parse_tweets_from_timeline self (arrived_on_load env)
      in scroll_timeline resume_from_tweet_id (the (existing_tweet_ids self))
           (scroll_events env) self)"

text \<open>
  \<open>Inl\<close> is an exception that leaves the method: only the test of the page is outside
  the \<^verbatim>\<open>try\<close>.
\<close>

definition pw_scrape_user_tweets ::
  "session_env \<Rightarrow> string option \<Rightarrow> int option \<Rightarrow> string set option \<Rightarrow> scraper \<Rightarrow>
   string + (scrape_result \<times> scraper)" where
  "pw_scrape_user_tweets env resume_from_tweet_id max_tweets existing self =
     (if \<not> page_initialized env then Inl ''Browser not initialized''
      else
        case goto_error env of
          Some e \<Rightarrow>
            (let self = prepare_scraping_session max_tweets existing self
             in Inr (\<lparr>error = Some e, result_tweets = all_tweets self\<rparr>, self))
        | None \<Rightarrow>
            if account_missing env then
              (let self = parse_tweets_from_timeline
                            (prepare_scraping_session max_tweets existing self)
                            (arrived_on_load env)
               in Inr (\<lparr>error = Some ''Account not found'', result_tweets = []\<rparr>, self))
            else
              (case session_scroll env resume_from_tweet_id max_tweets existing self of
                 (self, loc, Raised e) \<Rightarrow>
                   Inr (\<lparr>error = Some e, result_tweets = all_tweets self\<rparr>, self)
               | (self, loc, _) \<Rightarrow>
                   Inr (\<lparr>error = None, result_tweets = all_tweets self\<rparr>, self)))"

section \<open>XScraper\<close>

subsection \<open>_apply_filters\<close>

record filter_settings =
  min_followers :: int
  verified_only :: bool
  exclude_retweets :: bool
  exclude_replies :: bool
  language :: string

definition is_space :: "char \<Rightarrow> bool" where
  "is_space c =
     (let n = (of_char c :: nat)
      in (9 \<le> n \<and> n \<le> 13) \<or> (28 \<le> n \<and> n \<le> 32) \<or> n = 133 \<or> n = 160)"

definition py_strip :: "string \<Rightarrow> string" where
  "py_strip s = rev (dropWhile is_space (rev (dropWhile is_space s)))"

fun py_split :: "char \<Rightarrow> string \<Rightarrow> string list" where
  "py_split c [] = [[]]"
| "py_split c (x # xs) =
     (if x = c then [] # py_split c xs
      else (case py_split c xs of p # ps \<Rightarrow> (x # p) # ps | [] \<Rightarrow> [[x]]))"

definition language_allowed :: "string \<Rightarrow> string \<Rightarrow> bool" where
  "language_allowed allowed_languages tweet_lang =
     (if allowed_languages \<noteq> [] then
        (if CHR '','' \<in> set allowed_languages
         then tweet_lang \<in> set (map py_strip (py_split (CHR '','') allowed_languages))
         else tweet_lang = allowed_languages)
      else True)"

definition passes_filters :: "filter_settings \<Rightarrow> tweet \<Rightarrow> bool" where
  "passes_filters fs t =
     (\<not> followers_count t < min_followers fs \<and>
      \<not> (verified_only fs \<and> \<not> verified t) \<and>
      \<not> (exclude_retweets fs \<and> is_retweet t) \<and>
      \<not> (exclude_replies fs \<and> is_reply t) \<and>
      language_allowed (language fs) (lang t))"

definition apply_filters :: "filter_settings \<Rightarrow> tweet list \<Rightarrow> tweet list" where
  "apply_filters fs ts = filter (passes_filters fs) ts"

subsection \<open>scrape_user_tweets\<close>

text \<open>
  Everything outside the program during one call of \<^verbatim>\<open>XScraper.scrape_user_tweets\<close>.
  \<open>load_dir_ok\<close> and \<open>save_dir_ok\<close> say whether \<^verbatim>\<open>get_checkpoint_file\<close> can create the
  user directory when the checkpoint is loaded and when it is saved.
\<close>

record crawl_env =
  config_limit :: int
  filters :: filter_settings
  load_dir_ok :: bool
  login_ok :: bool
  browser :: session_env
  save_dir_ok :: bool
  checkpoint_write :: write_outcome
  tweets_write :: write_outcome

text \<open>
  What the caller gets: an exception, the scraper's error dictionary, or the result
  dictionary (its \<^verbatim>\<open>'tweets'\<close> are the filtered tweets, \<^verbatim>\<open>'tweet_count'\<close> counts the
  unfiltered ones; the analysis is left out).
\<close>

datatype crawl_outcome =
    Raises string
  | ReturnsError scrape_result
  | Returns nat "tweet list"

text \<open>
  The checkpoint dictionary of the session. Its sort raises when a key does, and the
  exception is raised again to the caller.
\<close>

definition checkpoint_data ::
  "checkpoint option \<Rightarrow> tweet list \<Rightarrow> tweet list \<Rightarrow> checkpoint option" where
  "checkpoint_data previous all new_tweets =
     (if list_all key_ok all then
        (let sorted_by_id = sort_key (\<lambda>x. the (id_key x)) all;
             oldest_tweet = hd sorted_by_id;
             newest_tweet = last sorted_by_id
         in Some \<lparr>total_tweets = length all,
             oldest_tweet_id = Some (tweet_id oldest_tweet),
             oldest_tweet_date = Some (created_at oldest_tweet),
             newest_tweet_id = Some (tweet_id newest_tweet),
             newest_tweet_date = Some (created_at newest_tweet),
             session_count = (case previous of Some c \<Rightarrow> session_count c + 1 | None \<Rightarrow> 1),
             last_session_tweets = length new_tweets\<rparr>)
      else None)"

text \<open>
  The two writes at the end of a session, in the order of the source: the checkpoint,
  then the archive. The result lists the disk before, between and after the writes.
\<close>

definition persist :: "crawl_env \<Rightarrow> checkpoint \<Rightarrow> tweet list \<Rightarrow> disk \<Rightarrow> string + disk list" where
  "persist env cp all d =
     (case save_checkpoint (save_dir_ok env) (checkpoint_write env) cp d of
        Inl e \<Rightarrow> Inl e
      | Inr d1 \<Rightarrow> Inr [d, d1, fst (save_all_tweets (tweets_write env) all (Some cp) d1)])"

text \<open>
  The session limit: the argument, or else the configured limit when it is positive.
\<close>

definition effective_limit :: "crawl_env \<Rightarrow> int option \<Rightarrow> int option" where
  "effective_limit env max_tweets =
     (case max_tweets of
        None \<Rightarrow> (if config_limit env > 0 then Some (config_limit env) else None)
      | Some m \<Rightarrow> Some m)"

text \<open>
  The decision between a fresh crawl and a resumed one: the checkpoint, the existing
  tweets, the resume anchor and the dedup seed set.
\<close>

definition resume_plan ::
  "bool \<Rightarrow> disk \<Rightarrow> checkpoint option \<times> tweet list \<times> string option \<times> string set" where
  "resume_plan resume d =
     (if resume then
        (case load_checkpoint d of
           Some c \<Rightarrow>
             (Some c, load_existing_tweets d, oldest_tweet_id c,
              set (filter (\<lambda>i. i \<noteq> []) (map tweet_id (load_existing_tweets d))))
         | None \<Rightarrow> (None, [], None, {}))
      else (None, [], None, {}))"

definition xscraper_scrape_user_tweets ::
  "crawl_env \<Rightarrow> bool \<Rightarrow> int option \<Rightarrow> scraper \<Rightarrow> disk \<Rightarrow> crawl_outcome \<times> disk" where
  "xscraper_scrape_user_tweets env resume max_tweets self d =
     (if resume \<and> \<not> load_dir_ok env then (Raises ''mkdir failed'', d)
      else
        case resume_plan resume d of
          (checkpoint, existing_tweets, resume_from_tweet_id, existing_ids) \<Rightarrow>
        if \<not> login_ok env then (Raises ''Failed to login before scraping'', d)
        else
          case pw_scrape_user_tweets (browser env) resume_from_tweet_id
                 (effective_limit env max_tweets) (Some existing_ids) self of
            Inl e \<Rightarrow> (Raises e, d)
          | Inr (scrape_result, self) \<Rightarrow>
              if error scrape_result \<noteq> None then (ReturnsError scrape_result, d)
              else
                let new_tweets = result_tweets scrape_result;
                    all = (if existing_tweets \<noteq> []
                           then merge_tweets existing_tweets new_tweets else new_tweets)
                in
                if all \<noteq> [] then
                  (case checkpoint_data checkpoint all new_tweets of
                     None \<Rightarrow> (Raises ''ValueError'', d)
                   | Some cp \<Rightarrow>
                       (case persist env cp all d of
                          Inl e \<Rightarrow> (Raises e, d)
                        | Inr ds \<Rightarrow>
                            (Returns (length all) (apply_filters (filters env) all), last ds)))
                else (Returns (length all) (apply_filters (filters env) all), d))"

section \<open>Predicates and sample data\<close>

text \<open>
  A dictionary of \<^verbatim>\<open>merge_tweets\<close> or \<^verbatim>\<open>save_all_tweets\<close> has distinct keys, and every
  key is the non-empty id of its tweet.
\<close>

definition dict_wf :: "tweet_dict \<Rightarrow> bool" where
  "dict_wf d = (distinct (map fst d) \<and> list_all (\<lambda>(k, v). k \<noteq> [] \<and> tweet_id v = k) d)"

text \<open>
  The session dedup set holds exactly the ids of the buffer, and no id is there twice.
\<close>

definition buffer_invariant :: "scraper \<Rightarrow> bool" where
  "buffer_invariant self =
     (scraped_tweet_ids self = set (map tweet_id (all_tweets self)) \<and>
      distinct (map tweet_id (all_tweets self)))"

text \<open>
  No tweet of the buffer has an id of the dedup seed set.
\<close>

definition fresh_ids :: "scraper \<Rightarrow> bool" where
  "fresh_ids self =
     (case existing_tweet_ids self of None \<Rightarrow> True
      | Some ex \<Rightarrow> set (map tweet_id (all_tweets self)) \<inter> ex = {})"

text \<open>
  Every tweet of the buffer has an id.
\<close>

definition ids_present :: "scraper \<Rightarrow> bool" where
  "ids_present self = list_all has_id (all_tweets self)"

text \<open>
  An iteration in which the scroll call does not raise, the page does not report its bottom
  and the session is under its time limit.
\<close>

definition undisturbed :: "scroll_event \<Rightarrow> bool" where
  "undisturbed ev = (scroll_error ev = None \<and> \<not> is_at_bottom ev \<and> \<not> elapsed_over_600 ev)"

text \<open>
  The ids of the archive on disk are distinct.
\<close>

definition archive_ids_distinct :: "disk \<Rightarrow> bool" where
  "archive_ids_distinct d =
     (case tweets_file d of Written a \<Rightarrow> distinct (map tweet_id (tweets a)) | _ \<Rightarrow> True)"

text \<open>Sample tweets, events and settings.\<close>

definition tw :: "string \<Rightarrow> string \<Rightarrow> tweet" where
  "tw i txt = \<lparr>tweet_id = i, created_at = [], full_text = txt, followers_count = 0,
     verified = False, is_retweet = False, is_reply = False, lang = ''en''\<rparr>"

definition quiet :: scroll_event where
  "quiet = \<lparr>scroll_error = None, arrived = [], is_at_bottom = False, arrived_late = [],
     arrived_refresh = [], elapsed_over_600 = False\<rparr>"

definition default_scraper :: scraper where
  "default_scraper = \<lparr>all_tweets = [], scraped_tweet_ids = {}, existing_tweet_ids = None,
     scroll_attempts_without_new = 0, max_tweets_per_session = None, max_scroll_attempts = 5000,
     max_attempts_without_new = 50, overlap_threshold = 5\<rparr>"

definition feed :: "(nat \<Rightarrow> tweet option list) \<Rightarrow> session_env" where
  "feed f = \<lparr>page_initialized = True, goto_error = None, arrived_on_load = f 0,
     account_missing = False, scroll_events = (\<lambda>n. quiet\<lparr>arrived := f n\<rparr>)\<rparr>"

text \<open>
  The listener got entries, and none of them is a tweet: every extraction failed.
\<close>

definition no_items :: "tweet option list \<Rightarrow> bool" where
  "no_items ps = list_all (\<lambda>p. p = None) ps"

text \<open>
  An iteration during which no tweet is extracted.
\<close>

definition silent :: "scroll_event \<Rightarrow> bool" where
  "silent ev = (no_items (arrived ev) \<and> no_items (arrived_late ev) \<and> no_items (arrived_refresh ev))"

text \<open>
  The resume point has not been confirmed and nothing was cleared, in a session whose
  overlap threshold is positive.
\<close>

definition unconfirmed :: "string set \<Rightarrow> scraper \<Rightarrow> scroll_locals \<Rightarrow> bool" where
  "unconfirmed ex self loc =
     (fresh_ids self \<and> existing_tweet_ids self = Some ex \<and> 0 < overlap_threshold self \<and>
      \<not> resume_point_found loc \<and> overlap_log loc = [])"

text \<open>
  A fresh session with a limit of ten tweets that gets twelve tweets in its first scroll.
\<close>

definition twelve_ids :: "string list" where
  "twelve_ids = [''112'', ''111'', ''110'', ''109'', ''108'', ''107'', ''106'', ''105'', ''104'',
     ''103'', ''102'', ''101'']"

definition burst :: "nat \<Rightarrow> tweet option list" where
  "burst n = (if n = 1 then map (\<lambda>i. Some (tw i [])) twelve_ids else [])"

definition capped_scraper :: scraper where
  "capped_scraper = default_scraper\<lparr>existing_tweet_ids := Some {}, max_tweets_per_session := Some 10\<rparr>"

text \<open>
  The overlap scenario of the specification: the archive holds the ids 50 down to 1, the feed
  shows ten new tweets (60 down to 51) and then ten archived ones (49 down to 40).
\<close>

definition archived_ids :: "string list" where
  "archived_ids =
    [''50'', ''49'', ''48'', ''47'', ''46'', ''45'', ''44'', ''43'', ''42'', ''41'',
     ''40'', ''39'', ''38'', ''37'', ''36'', ''35'', ''34'', ''33'', ''32'', ''31'',
     ''30'', ''29'', ''28'', ''27'', ''26'', ''25'', ''24'', ''23'', ''22'', ''21'',
     ''20'', ''19'', ''18'', ''17'', ''16'', ''15'', ''14'', ''13'', ''12'', ''11'',
     ''10'', ''9'', ''8'', ''7'', ''6'', ''5'', ''4'', ''3'', ''2'', ''1'']"

definition new_ids :: "string list" where
  "new_ids = [''60'', ''59'', ''58'', ''57'', ''56'', ''55'', ''54'', ''53'', ''52'', ''51'']"

definition old_ids :: "string list" where
  "old_ids = [''49'', ''48'', ''47'', ''46'', ''45'', ''44'', ''43'', ''42'', ''41'', ''40'']"

definition overlap_stream :: "nat \<Rightarrow> tweet option list" where
  "overlap_stream n =
     (if n = 1 then map (\<lambda>i. Some (tw i [])) new_ids
      else if n = 2 then map (\<lambda>i. Some (tw i [])) old_ids else [])"

definition resuming_scraper :: scraper where
  "resuming_scraper = default_scraper\<lparr>existing_tweet_ids := Some (set archived_ids),
     max_scroll_attempts := 2\<rparr>"

text \<open>
  A resume session with an overlap threshold of zero over an archive with the ids 10 and
  20: a tweet with id 30 arrives in the second scroll.
\<close>

definition late_item :: "nat \<Rightarrow> tweet option list" where
  "late_item n = (if n = 2 then [Some (tw ''30'' [])] else [])"

definition eager_scraper :: scraper where
  "eager_scraper = default_scraper\<lparr>existing_tweet_ids := Some {''10'', ''20''},
     overlap_threshold := 0, max_scroll_attempts := 2\<rparr>"

text \<open>
  The archive on disk is the one of the session that wrote the checkpoint: it carries the
  session count of the checkpoint.
\<close>

definition checkpoint_backed :: "disk \<Rightarrow> bool" where
  "checkpoint_backed d =
     (case checkpoint_file d of
        Written c \<Rightarrow>
          (case tweets_file d of
             Written a \<Rightarrow> archive_session_count a = session_count c
           | _ \<Rightarrow> False)
      | _ \<Rightarrow> True)"

text \<open>
  A crawl of one tweet, with filters that keep it, on an empty disk.
\<close>

definition pass_all :: filter_settings where
  "pass_all = \<lparr>min_followers = 0, verified_only = False, exclude_retweets = False,
     exclude_replies = False, language = ''en''\<rparr>"

definition one_tweet :: "nat \<Rightarrow> tweet option list" where
  "one_tweet n = (if n = 1 then [Some (tw ''7'' ''x'')] else [])"

definition crawl_of :: "session_env \<Rightarrow> write_outcome \<Rightarrow> crawl_env" where
  "crawl_of b w = \<lparr>config_limit = 0, filters = pass_all, load_dir_ok = True, login_ok = True,
     browser = b, save_dir_ok = True, checkpoint_write = WriteOk, tweets_write = w\<rparr>"

definition empty_disk :: disk where
  "empty_disk = \<lparr>checkpoint_file = Absent, tweets_file = Absent\<rparr>"

definition checkpoint_7 :: checkpoint where
  "checkpoint_7 = \<lparr>total_tweets = 1, oldest_tweet_id = Some ''7'', oldest_tweet_date = Some [],
     newest_tweet_id = Some ''7'', newest_tweet_date = Some [], session_count = 1,
     last_session_tweets = 1\<rparr>"

definition one_scroll :: scraper where
  "one_scroll = default_scraper\<lparr>existing_tweet_ids := Some {}, max_scroll_attempts := 1\<rparr>"

text \<open>
  The same feed, with a scroll call that raises in the second iteration.
\<close>

definition failing_scroll :: session_env where
  "failing_scroll = (feed one_tweet)\<lparr>scroll_events :=
     (\<lambda>n. if n = 2 then quiet\<lparr>scroll_error := Some ''boom''\<rparr> else quiet\<lparr>arrived := one_tweet n\<rparr>)\<rparr>"

definition fresh_scraper :: scraper where
  "fresh_scraper = default_scraper\<lparr>existing_tweet_ids := Some {}\<rparr>"

section \<open>Dictionaries and the merge\<close>

lemma dict_set_fresh: "k \<notin> set (map fst d) \<Longrightarrow> dict_set d k v = d @ [(k, v)]"
  by (induction d) auto

lemma dict_set_present:
  "k \<notin> set (map fst p) \<Longrightarrow> dict_set (p @ (k, v0) # q) k v = p @ (k, v) # q"
  by (induction p) auto

lemma dict_set_keys:
  "map fst (dict_set d k v) = (if k \<in> set (map fst d) then map fst d else map fst d @ [k])"
  by (induction d) force+

lemma dict_set_wf: "dict_wf d \<Longrightarrow> k \<noteq> [] \<Longrightarrow> tweet_id v = k \<Longrightarrow> dict_wf (dict_set d k v)"
  unfolding dict_wf_def
  by (induction d) (auto simp: dict_set_keys split: if_splits)

lemma merge_loop_wf: "dict_wf d \<Longrightarrow> dict_wf (merge_loop d ts)"
  by (induction ts arbitrary: d) (auto simp: dict_set_wf)

lemma merge_loop_append: "merge_loop d (xs @ ys) = merge_loop (merge_loop d xs) ys"
  by (induction xs arbitrary: d) auto

lemma merge_loop_keys_prefix: "\<exists>ks. map fst (merge_loop d ts) = map fst d @ ks"
proof (induction ts arbitrary: d)
  case Nil show ?case by simp
next
  case (Cons t ts)
  show ?case
  proof (cases "tweet_id t \<noteq> []")
    case True
    from Cons.IH[of "dict_set d (tweet_id t) t"] obtain ks where
      "map fst (merge_loop (dict_set d (tweet_id t) t) ts) = map fst (dict_set d (tweet_id t) t) @ ks" by blast
    then show ?thesis using True by (auto simp: dict_set_keys)
  next
    case False
    then show ?thesis using Cons.IH[of d] by simp
  qed
qed

lemma merge_loop_values_fresh:
  "dict_wf (p @ d) \<Longrightarrow> merge_loop p (map snd d) = p @ d"
proof (induction d arbitrary: p)
  case Nil show ?case by simp
next
  case (Cons e d)
  obtain k v where e: "e = (k, v)" by (cases e)
  from Cons.prems have k: "k \<noteq> []" "tweet_id v = k" "k \<notin> set (map fst p)"
    by (auto simp: dict_wf_def e)
  have "dict_wf ((p @ [(k, v)]) @ d)" using Cons.prems by (simp add: e)
  from Cons.IH[OF this] show ?case using k by (simp add: e dict_set_fresh)
qed

lemma merge_loop_values_overwrite:
  "dict_wf (p @ q1) \<Longrightarrow> map fst q0 = map fst q1 \<Longrightarrow> merge_loop (p @ q0) (map snd q1) = p @ q1"
proof (induction q1 arbitrary: p q0)
  case Nil then show ?case by simp
next
  case (Cons e q1)
  obtain k v where e: "e = (k, v)" by (cases e)
  from Cons.prems(2) obtain v0 q0' where q0: "q0 = (k, v0) # q0'" "map fst q0' = map fst q1"
    by (cases q0) (auto simp: e)
  from Cons.prems have k: "k \<noteq> []" "tweet_id v = k" "k \<notin> set (map fst p)"
    by (auto simp: dict_wf_def e)
  have "dict_wf ((p @ [(k, v)]) @ q1)" using Cons.prems by (simp add: e)
  from Cons.IH[OF this q0(2)] show ?case using k by (simp add: e q0 dict_set_present)
qed

lemma merge_loop_reinsert:
  assumes "dict_wf d0" "d = merge_loop d0 ts"
  shows "merge_loop d0 (map snd d) = d"
proof -
  have wf: "dict_wf d" using assms merge_loop_wf by simp
  obtain ks where ks: "map fst d = map fst d0 @ ks"
    using merge_loop_keys_prefix assms(2) by blast
  define d1 where "d1 = take (length d0) d"
  define d2 where "d2 = drop (length d0) d"
  have d: "d = d1 @ d2" by (simp add: d1_def d2_def)
  have k1: "map fst d0 = map fst d1"
    using ks by (simp add: d1_def take_map[symmetric])
  have wf1: "dict_wf ([] @ d1)" using wf d by (auto simp: dict_wf_def)
  have "merge_loop d0 (map snd d) = merge_loop (merge_loop ([] @ d0) (map snd d1)) (map snd d2)"
    by (simp add: d merge_loop_append)
  also have "\<dots> = merge_loop d1 (map snd d2)"
    using merge_loop_values_overwrite[OF wf1 k1] by simp
  also have "\<dots> = d1 @ d2" using merge_loop_values_fresh[of d1 d2] wf d by simp
  finally show ?thesis using d by simp
qed

lemma map_of_dict_set: "map_of (dict_set d k v) = (map_of d)(k \<mapsto> v)"
  by (induction d) (auto simp: fun_eq_iff)

lemma map_of_merge_loop:
  "map_of (merge_loop d ts) = spec_insert_all (map_of d) (filter has_id ts)"
  by (induction ts arbitrary: d) (auto simp: spec_insert_all_def has_id_def map_of_dict_set)

lemma dict_wf_ids: "dict_wf d \<Longrightarrow> map tweet_id (map snd d) = map fst d"
  by (induction d) (auto simp: dict_wf_def)

lemma dict_wf_values_distinct: "dict_wf d \<Longrightarrow> distinct (map tweet_id (dict_values d))"
  using dict_wf_ids[of d] by (simp add: dict_values_def dict_wf_def del: map_map)

lemma dict_wf_values_has_id: "dict_wf d \<Longrightarrow> list_all has_id (dict_values d)"
  by (induction d) (auto simp: dict_wf_def dict_values_def has_id_def)

lemma dict_values_ran: "dict_wf d \<Longrightarrow> set (dict_values d) = ran (map_of d)"
  by (simp add: dict_wf_def dict_values_def ran_distinct)

lemma dict_wf_empty: "dict_wf []" by (simp add: dict_wf_def)

lemma merge_tweets_wf: "dict_wf (merge_loop (merge_loop [] e) n)"
  by (intro merge_loop_wf dict_wf_empty)

lemma merge_tweets_ran:
  "set (merge_tweets e n) = ran (spec_merge_mapping (filter has_id e) (filter has_id n))"
  by (simp add: merge_tweets_def dict_values_ran[OF merge_tweets_wf] map_of_merge_loop spec_merge_mapping_def)

lemma unique_loop_wf: "dict_wf d \<Longrightarrow> dict_wf (unique_loop d ts)"
  by (induction ts arbitrary: d) (auto simp: dict_set_wf)

lemma sorted_reverse_sorted: "sorted_reverse xs = Some ys \<Longrightarrow> sorted_by_id_desc ys"
proof -
  assume "sorted_reverse xs = Some ys"
  then have k: "list_all key_ok xs" and ys: "ys = sort_key (\<lambda>x. - the (id_key x)) xs"
    by (auto simp: sorted_reverse_def split: if_splits)
  have "sorted (map (\<lambda>x. - the (id_key x)) ys)" unfolding ys by (rule sorted_sort_key)
  then have "sorted_wrt (\<lambda>x y. the (id_key x) \<ge> the (id_key y)) ys"
    by (simp add: sorted_map)
  moreover have "list_all key_ok ys" using k by (simp add: ys list_all_iff)
  ultimately show ?thesis by (simp add: sorted_by_id_desc_def)
qed

lemma sorted_reverse_mset: "sorted_reverse xs = Some ys \<Longrightarrow> mset ys = mset xs"
  by (auto simp: sorted_reverse_def split: if_splits)

lemma sorted_reverse_set: "sorted_reverse xs = Some ys \<Longrightarrow> set ys = set xs"
  by (auto simp: sorted_reverse_def split: if_splits)

lemma sorted_reverse_distinct:
  "sorted_reverse xs = Some ys \<Longrightarrow> distinct (map tweet_id xs) \<Longrightarrow> distinct (map tweet_id ys)"
proof -
  assume a: "sorted_reverse xs = Some ys" and d: "distinct (map tweet_id xs)"
  have "mset (map tweet_id ys) = mset (map tweet_id xs)"
    using sorted_reverse_mset[OF a] by (metis mset_map)
  from mset_eq_imp_distinct_iff[OF this] d show ?thesis by simp
qed

lemma sorted_tweets_distinct: "sorted_tweets xs = Some ys \<Longrightarrow> distinct (map tweet_id ys)"
  unfolding sorted_tweets_def
  by (erule sorted_reverse_distinct)
     (intro dict_wf_values_distinct unique_loop_wf dict_wf_empty)

lemma unique_loop_id: "dict_wf d \<Longrightarrow> list_all has_id ts \<Longrightarrow> distinct (map tweet_id ts) \<Longrightarrow>
   set (map tweet_id ts) \<inter> set (map fst d) = {} \<Longrightarrow> unique_loop d ts = d @ map (\<lambda>t. (tweet_id t, t)) ts"
proof (induction ts arbitrary: d)
  case Nil then show ?case by simp
next
  case (Cons t ts)
  have f: "dict_set d (tweet_id t) t = d @ [(tweet_id t, t)]"
    using Cons.prems by (intro dict_set_fresh) auto
  have "unique_loop (d @ [(tweet_id t, t)]) ts = (d @ [(tweet_id t, t)]) @ map (\<lambda>t. (tweet_id t, t)) ts"
    using Cons.prems by (intro Cons.IH) (auto simp: dict_wf_def has_id_def)
  then show ?case using Cons.prems f by (auto simp: has_id_def dict_contains_def dict_keys_def)
qed

lemma sorted_tweets_of_archive:
  "list_all has_id ts \<Longrightarrow> distinct (map tweet_id ts) \<Longrightarrow> sorted_tweets ts = sorted_reverse ts"
  using unique_loop_id[of "[]" ts]
  by (simp add: sorted_tweets_def dict_values_def dict_wf_empty comp_def)

lemma merge_loop_id: "list_all has_id ts \<Longrightarrow> distinct (map tweet_id ts) \<Longrightarrow>
  merge_loop [] ts = map (\<lambda>t. (tweet_id t, t)) ts"
  using merge_loop_values_fresh[of "[]" "map (\<lambda>t. (tweet_id t, t)) ts"]
  by (simp add: dict_wf_def comp_def list_all_iff has_id_def)

section \<open>Invariants of the scroll loop\<close>

lemma append_tweet_invariant: "buffer_invariant self \<Longrightarrow> buffer_invariant (append_tweet self p)"
  by (auto simp: buffer_invariant_def append_tweet_def split: option.splits)

lemma parse_tweets_invariant:
  "buffer_invariant self \<Longrightarrow> buffer_invariant (parse_tweets_from_timeline self ps)"
  unfolding parse_tweets_from_timeline_def
  by (induction ps arbitrary: self) (simp_all add: append_tweet_invariant)

lemma append_tweet_fresh: "fresh_ids self \<Longrightarrow> fresh_ids (append_tweet self p)"
  by (auto simp: fresh_ids_def append_tweet_def split: option.splits)

lemma parse_tweets_fresh:
  "fresh_ids self \<Longrightarrow> fresh_ids (parse_tweets_from_timeline self ps)"
  unfolding parse_tweets_from_timeline_def
  by (induction ps arbitrary: self) (simp_all add: append_tweet_fresh)

lemma prepare_invariant: "buffer_invariant (prepare_scraping_session m ex self)"
  by (simp add: buffer_invariant_def prepare_scraping_session_def)

lemma prepare_fresh: "fresh_ids (prepare_scraping_session m ex self)"
  by (simp add: fresh_ids_def prepare_scraping_session_def)

lemma overlap_check_invariant:
  "overlap_check r ex self loc n = (self', loc', n') \<Longrightarrow> buffer_invariant self \<Longrightarrow>
   buffer_invariant self'"
  by (auto simp: overlap_check_def buffer_invariant_def split: if_splits)

lemma overlap_check_fresh:
  "overlap_check r ex self loc n = (self', loc', n') \<Longrightarrow> fresh_ids self \<Longrightarrow> fresh_ids self'"
  by (auto simp: overlap_check_def fresh_ids_def split: if_splits option.splits)

lemma streak_update_buffer:
  "streak_update self loc n = (self', st) \<Longrightarrow>
   all_tweets self' = all_tweets self \<and> scraped_tweet_ids self' = scraped_tweet_ids self"
  by (auto simp: streak_update_def Let_def split: if_splits)

lemma streak_update_invariant:
  "streak_update self loc n = (self', st) \<Longrightarrow> buffer_invariant self \<Longrightarrow> buffer_invariant self'"
  using streak_update_buffer[of self loc n self' st] by (simp add: buffer_invariant_def)

lemma streak_update_fresh:
  "streak_update self loc n = (self', st) \<Longrightarrow> fresh_ids self \<Longrightarrow> fresh_ids self'"
  using streak_update_buffer[of self loc n self' st] streak_update_frame[of self loc n self' st]
  by (auto simp: fresh_ids_def same_config_def split: option.splits)

lemma iteration_tail_invariant:
  "iteration_tail ev self loc = (self', st) \<Longrightarrow> buffer_invariant self \<Longrightarrow> buffer_invariant self'"
  by (auto simp: iteration_tail_def Let_def parse_tweets_invariant split: if_splits)

lemma iteration_tail_fresh:
  "iteration_tail ev self loc = (self', st) \<Longrightarrow> fresh_ids self \<Longrightarrow> fresh_ids self'"
  by (auto simp: iteration_tail_def Let_def parse_tweets_fresh split: if_splits)

text \<open>The iteration, cut into its four steps.\<close>

lemma scroll_iteration_cases:
  assumes "scroll_iteration r ex ev self loc = (self', loc', st)"
  obtains (raised) e where "scroll_error ev = Some e" "self' = self" "loc' = loc" "st = Some (Raised e)"
  | (ran) s2 l2 n2 s3 st3 s4 st4 where
      "scroll_error ev = None"
      "overlap_check r ex (parse_tweets_from_timeline self (arrived ev)) loc
         (int (length (all_tweets (parse_tweets_from_timeline self (arrived ev)))) -
          int (length (all_tweets self))) = (s2, l2, n2)"
      "streak_update s2 l2 n2 = (s3, st3)"
      "iteration_tail ev s3 l2 = (s4, st4)"
      "loc' = l2"
      "(self', st) =
         (if st3 \<noteq> None then (s3, st3)
          else if session_limit_reached s3 l2 then (s3, Some SessionLimit)
          else (s4, st4))"
proof (cases "scroll_error ev")
  case (Some e)
  with assms raised show ?thesis by (simp add: scroll_iteration_def)
next
  case None
  define s1 where "s1 = parse_tweets_from_timeline self (arrived ev)"
  obtain s2 l2 n2 where oc:
    "overlap_check r ex s1 loc (int (length (all_tweets s1)) - int (length (all_tweets self)))
       = (s2, l2, n2)"
    by (cases "overlap_check r ex s1 loc
         (int (length (all_tweets s1)) - int (length (all_tweets self)))") auto
  obtain s3 st3 where su: "streak_update s2 l2 n2 = (s3, st3)"
    by (cases "streak_update s2 l2 n2") auto
  obtain s4 st4 where it: "iteration_tail ev s3 l2 = (s4, st4)"
    by (cases "iteration_tail ev s3 l2") auto
  have "(self', loc', st) =
      (if st3 \<noteq> None then (s3, l2, st3)
       else if session_limit_reached s3 l2 then (s3, l2, Some SessionLimit)
       else (s4, l2, st4))"
    using assms None oc su it
    by (auto simp: scroll_iteration_def Let_def s1_def)
  then have "loc' = l2" "(self', st) =
         (if st3 \<noteq> None then (s3, st3)
          else if session_limit_reached s3 l2 then (s3, Some SessionLimit)
          else (s4, st4))"
    by (auto split: if_splits)
  with ran[OF None oc[unfolded s1_def] su it] show ?thesis by blast
qed

lemma scroll_iteration_invariant:
  assumes "scroll_iteration r ex ev self loc = (self', loc', st)" "buffer_invariant self"
  shows "buffer_invariant self'"
  using assms(1)
proof (cases rule: scroll_iteration_cases)
  case (raised e) with assms show ?thesis by simp
next
  case (ran s2 l2 n2 s3 st3 s4 st4)
  have i2: "buffer_invariant s2"
    using overlap_check_invariant[OF ran(2)] parse_tweets_invariant assms(2) by blast
  have i3: "buffer_invariant s3" using streak_update_invariant[OF ran(3) i2] .
  have i4: "buffer_invariant s4" using iteration_tail_invariant[OF ran(4) i3] .
  from ran(6) i3 i4 show ?thesis by (auto split: if_splits)
qed

lemma scroll_iteration_fresh:
  assumes "scroll_iteration r ex ev self loc = (self', loc', st)" "fresh_ids self"
  shows "fresh_ids self'"
  using assms(1)
proof (cases rule: scroll_iteration_cases)
  case (raised e) with assms show ?thesis by simp
next
  case (ran s2 l2 n2 s3 st3 s4 st4)
  have i2: "fresh_ids s2"
    using overlap_check_fresh[OF ran(2)] parse_tweets_fresh assms(2) by blast
  have i3: "fresh_ids s3" using streak_update_fresh[OF ran(3) i2] .
  have i4: "fresh_ids s4" using iteration_tail_fresh[OF ran(4) i3] .
  from ran(6) i3 i4 show ?thesis by (auto split: if_splits)
qed

text \<open>
  The proof rule of the loop: \<open>I\<close> holds whenever the loop condition is tested, \<open>Q\<close> when the
  loop is left.
\<close>

lemma scroll_loop_rule:
  assumes exit: "\<And>self loc. I self loc \<Longrightarrow> \<not> int (scroll_attempts loc) < max_scroll_attempts self \<Longrightarrow>
      Q self loc Ceiling"
    and step: "\<And>self loc self' loc' st.
      I self loc \<Longrightarrow> int (scroll_attempts loc) < max_scroll_attempts self \<Longrightarrow>
      scroll_iteration r ex (events (Suc (scroll_attempts loc))) self
        (loc\<lparr>scroll_attempts := Suc (scroll_attempts loc)\<rparr>) = (self', loc', st) \<Longrightarrow>
      (case st of None \<Rightarrow> I self' loc' | Some x \<Rightarrow> Q self' loc' x)"
    and init: "I self loc"
    and res: "scroll_loop r ex events self loc = (self', loc', stp)"
  shows "Q self' loc' stp"
  using exit step init res
proof (induction r ex events self loc rule: scroll_loop.induct)
  case (1 r ex events self loc)
  note exit = "1.prems"(1) and step = "1.prems"(2) and init = "1.prems"(3) and res = "1.prems"(4)
  show ?case
  proof (cases "int (scroll_attempts loc) < max_scroll_attempts self")
    case False
    with res have "(self', loc', stp) = (self, loc, Ceiling)" by (simp add: scroll_loop.simps)
    with exit[OF init False] show ?thesis by simp
  next
    case True
    define loc1 where "loc1 = loc\<lparr>scroll_attempts := scroll_attempts loc + 1\<rparr>"
    obtain s2 l2 st where it:
      "scroll_iteration r ex (events (scroll_attempts loc1)) self loc1 = (s2, l2, st)"
      by (cases "scroll_iteration r ex (events (scroll_attempts loc1)) self loc1") auto
    have it': "scroll_iteration r ex (events (Suc (scroll_attempts loc))) self
        (loc\<lparr>scroll_attempts := Suc (scroll_attempts loc)\<rparr>) = (s2, l2, st)"
      using it by (simp add: loc1_def)
    note post = step[OF init True it']
    show ?thesis
    proof (cases st)
      case (Some rr)
      with res True it have "(self', loc', stp) = (s2, l2, rr)"
        by (simp add: scroll_loop.simps[of r ex events self loc] loc1_def Let_def)
      with post Some show ?thesis by simp
    next
      case None
      with res True it have r2: "scroll_loop r ex events s2 l2 = (self', loc', stp)"
        by (simp add: scroll_loop.simps[of r ex events self loc] loc1_def Let_def)
      from post None have I2: "I s2 l2" by simp
      show ?thesis
        by (rule "1.IH"[OF True loc1_def it[symmetric] refl None exit step I2 r2])
    qed
  qed
qed

text \<open>Invariants of the buffer that every iteration keeps.\<close>

lemma scroll_loop_invariant:
  assumes "scroll_loop r ex events self loc = (self', loc', stp)"
    "buffer_invariant self"
  shows "buffer_invariant self'"
proof (rule scroll_loop_rule[where I = "\<lambda>s l. buffer_invariant s"
        and Q = "\<lambda>s l x. buffer_invariant s", OF _ _ assms(2) assms(1)])
  fix s l s' l' st
  assume "buffer_invariant s"
    "scroll_iteration r ex (events (Suc (scroll_attempts l))) s
        (l\<lparr>scroll_attempts := Suc (scroll_attempts l)\<rparr>) = (s', l', st)"
  then show "case st of None \<Rightarrow> buffer_invariant s' | Some x \<Rightarrow> buffer_invariant s'"
    using scroll_iteration_invariant by (auto split: option.split)
qed

lemma scroll_loop_fresh:
  assumes "scroll_loop r ex events self loc = (self', loc', stp)"
    "fresh_ids self"
  shows "fresh_ids self'"
proof (rule scroll_loop_rule[where I = "\<lambda>s l. fresh_ids s"
        and Q = "\<lambda>s l x. fresh_ids s", OF _ _ assms(2) assms(1)])
  fix s l s' l' st
  assume "fresh_ids s"
    "scroll_iteration r ex (events (Suc (scroll_attempts l))) s
        (l\<lparr>scroll_attempts := Suc (scroll_attempts l)\<rparr>) = (s', l', st)"
  then show "case st of None \<Rightarrow> fresh_ids s' | Some x \<Rightarrow> fresh_ids s'"
    using scroll_iteration_fresh by (auto split: option.split)
qed

lemma scroll_loop_same_config:
  assumes "scroll_loop r ex events self loc = (self', loc', stp)"
  shows "same_config self' self"
proof (rule scroll_loop_rule[where I = "\<lambda>s l. same_config s self"
        and Q = "\<lambda>s l x. same_config s self", OF _ _ same_config_refl assms(1)])
  fix s l s' l' st
  assume "same_config s self"
    "scroll_iteration r ex (events (Suc (scroll_attempts l))) s
        (l\<lparr>scroll_attempts := Suc (scroll_attempts l)\<rparr>) = (s', l', st)"
  then show "case st of None \<Rightarrow> same_config s' self | Some x \<Rightarrow> same_config s' self"
    using scroll_iteration_frame same_config_trans by (auto split: option.split) blast+
qed

section \<open>The resume point and the stops of the loop\<close>

lemma overlap_count_fresh:
  "fresh_ids self \<Longrightarrow> existing_tweet_ids self = Some ex \<Longrightarrow> overlap_count self ex = 0"
  by (auto simp: overlap_count_def fresh_ids_def filter_empty_conv)

lemma overlap_check_idle:
  "fresh_ids self \<Longrightarrow> existing_tweet_ids self = Some ex \<Longrightarrow> 0 < overlap_threshold self \<Longrightarrow>
   overlap_check r ex self loc n = (self, loc, n)"
  by (simp add: overlap_check_def overlap_count_fresh)

lemma scroll_iteration_unconfirmed:
  assumes it: "scroll_iteration r ex ev self loc = (self', loc', st)"
    and u: "unconfirmed ex self loc"
  shows "unconfirmed ex self' loc'"
proof -
  have c: "same_config self' self" using scroll_iteration_frame[OF it] by simp
  have f: "fresh_ids self'" using scroll_iteration_fresh[OF it] u by (simp add: unconfirmed_def)
  have l: "loc' = loc"
    using it
  proof (cases rule: scroll_iteration_cases)
    case (raised e) then show ?thesis by simp
  next
    case (ran s2 l2 n2 s3 st3 s4 st4)
    let ?s1 = "parse_tweets_from_timeline self (arrived ev)"
    have "fresh_ids ?s1" "existing_tweet_ids ?s1 = Some ex" "0 < overlap_threshold ?s1"
      using u by (simp_all add: unconfirmed_def parse_tweets_fresh parse_tweets_frame)
    from overlap_check_idle[OF this] ran(2) have "l2 = loc" by simp
    with ran(5) show ?thesis by simp
  qed
  from c f l u show ?thesis by (simp add: unconfirmed_def same_config_def)
qed

lemma scroll_loop_unconfirmed:
  assumes "scroll_loop r ex events self loc = (self', loc', stp)" "unconfirmed ex self loc"
  shows "unconfirmed ex self' loc'"
proof (rule scroll_loop_rule[where I = "unconfirmed ex" and Q = "\<lambda>s l x. unconfirmed ex s l",
      OF _ _ assms(2) assms(1)])
  fix s l s' l' st
  assume u: "unconfirmed ex s l"
    and it: "scroll_iteration r ex (events (Suc (scroll_attempts l))) s
        (l\<lparr>scroll_attempts := Suc (scroll_attempts l)\<rparr>) = (s', l', st)"
  have "unconfirmed ex s (l\<lparr>scroll_attempts := Suc (scroll_attempts l)\<rparr>)"
    using u by (simp add: unconfirmed_def)
  from scroll_iteration_unconfirmed[OF it this]
  show "case st of None \<Rightarrow> unconfirmed ex s' l' | Some x \<Rightarrow> unconfirmed ex s' l'"
    by (simp split: option.split)
qed

lemma session_scroll_unfold:
  "session_scroll env r m ex self =
     scroll_loop r (case ex of None \<Rightarrow> {} | Some e \<Rightarrow> e) (scroll_events env)
       ((parse_tweets_from_timeline (prepare_scraping_session m ex self) (arrived_on_load env))
          \<lparr>scroll_attempts_without_new := 0\<rparr>)
       \<lparr>scroll_attempts = 0, resume_point_found = \<not> truthy_str r, overlap_log = []\<rparr>"
  by (simp add: session_scroll_def scroll_timeline_def Let_def parse_tweets_frame
      prepare_scraping_session_def)

lemma session_start_invariant:
  "buffer_invariant ((parse_tweets_from_timeline (prepare_scraping_session m ex self) ps)
          \<lparr>scroll_attempts_without_new := 0\<rparr>)"
  using parse_tweets_invariant[OF prepare_invariant, of m ex self ps]
  by (simp add: buffer_invariant_def)

lemma session_start_fresh:
  "fresh_ids ((parse_tweets_from_timeline (prepare_scraping_session m ex self) ps)
          \<lparr>scroll_attempts_without_new := 0\<rparr>)"
  using parse_tweets_fresh[OF prepare_fresh, of m ex self ps]
  by (auto simp: fresh_ids_def split: option.splits)

lemma session_start_config:
  "existing_tweet_ids ((parse_tweets_from_timeline (prepare_scraping_session m ex self) ps)
          \<lparr>scroll_attempts_without_new := 0\<rparr>) = Some (case ex of None \<Rightarrow> {} | Some e \<Rightarrow> e) \<and>
   overlap_threshold ((parse_tweets_from_timeline (prepare_scraping_session m ex self) ps)
          \<lparr>scroll_attempts_without_new := 0\<rparr>) = overlap_threshold self \<and>
   max_scroll_attempts ((parse_tweets_from_timeline (prepare_scraping_session m ex self) ps)
          \<lparr>scroll_attempts_without_new := 0\<rparr>) = max_scroll_attempts self \<and>
   max_tweets_per_session ((parse_tweets_from_timeline (prepare_scraping_session m ex self) ps)
          \<lparr>scroll_attempts_without_new := 0\<rparr>) = m"
  by (simp add: parse_tweets_frame prepare_scraping_session_def)

lemma session_scroll_invariant:
  "session_scroll env r m ex self = (self', loc', stp) \<Longrightarrow> buffer_invariant self'"
  unfolding session_scroll_unfold
  by (erule scroll_loop_invariant) (rule session_start_invariant)

lemma session_scroll_fresh:
  "session_scroll env r m ex self = (self', loc', stp) \<Longrightarrow> fresh_ids self'"
  unfolding session_scroll_unfold
  by (erule scroll_loop_fresh) (rule session_start_fresh)

lemma session_scroll_config:
  assumes "session_scroll env r m ex self = (self', loc', stp)"
  shows "existing_tweet_ids self' = Some (case ex of None \<Rightarrow> {} | Some e \<Rightarrow> e) \<and>
         overlap_threshold self' = overlap_threshold self \<and>
         max_scroll_attempts self' = max_scroll_attempts self \<and>
         max_tweets_per_session self' = m"
  using scroll_loop_same_config[OF assms[unfolded session_scroll_unfold]] session_start_config[of m ex self "arrived_on_load env"]
  by (simp add: same_config_def)

lemma session_scroll_unconfirmed:
  assumes "session_scroll env r m ex self = (self', loc', stp)"
    "truthy_str r" "0 < overlap_threshold self"
  shows "\<not> resume_point_found loc' \<and> overlap_log loc' = []"
proof -
  have "unconfirmed (case ex of None \<Rightarrow> {} | Some e \<Rightarrow> e)
      ((parse_tweets_from_timeline (prepare_scraping_session m ex self) (arrived_on_load env))
          \<lparr>scroll_attempts_without_new := 0\<rparr>)
       \<lparr>scroll_attempts = 0, resume_point_found = \<not> truthy_str r, overlap_log = []\<rparr>"
    using assms(2,3) session_start_fresh[of m ex self "arrived_on_load env"]
      session_start_config[of m ex self "arrived_on_load env"]
    by (simp add: unconfirmed_def)
  from scroll_loop_unconfirmed[OF assms(1)[unfolded session_scroll_unfold] this]
  show ?thesis by (simp add: unconfirmed_def)
qed

lemma parse_no_items: "no_items ps \<Longrightarrow> parse_tweets_from_timeline self ps = self"
  unfolding parse_tweets_from_timeline_def no_items_def
  by (induction ps arbitrary: self) (simp_all add: append_tweet_def)

lemma streak_update_stops:
  "streak_update self loc n = (self', Some x) \<Longrightarrow>
   x = ZeroExtracted \<or> x = ResumeNotFound \<or> x = NoNewTweets"
  by (auto simp: streak_update_def Let_def split: if_splits)

lemma iteration_tail_stops:
  "iteration_tail ev self loc = (self', Some x) \<Longrightarrow> x = AtBottom \<or> x = Stuck"
  by (auto simp: iteration_tail_def Let_def split: if_splits)

lemma scroll_iteration_not_ceiling:
  assumes "scroll_iteration r ex ev self loc = (self', loc', Some x)"
  shows "x \<noteq> Ceiling"
  using assms
proof (cases rule: scroll_iteration_cases)
  case (raised e) then show ?thesis by simp
next
  case (ran s2 l2 n2 s3 st3 s4 st4)
  then show ?thesis
    using streak_update_stops[of s2 l2 n2 s3] iteration_tail_stops[of ev s3 l2 s4]
    by (auto split: if_splits)
qed

lemma scroll_iteration_session_limit:
  assumes "scroll_iteration r ex ev self loc = (self', loc', Some SessionLimit)"
  shows "session_limit_reached self' loc'"
  using assms
proof (cases rule: scroll_iteration_cases)
  case (raised e) then show ?thesis by simp
next
  case (ran s2 l2 n2 s3 st3 s4 st4)
  then show ?thesis
    using streak_update_stops[of s2 l2 n2 s3] iteration_tail_stops[of ev s3 l2 s4]
    by (auto split: if_splits)
qed

lemma iteration_tail_no_late:
  "no_items (arrived_late ev) \<Longrightarrow> no_items (arrived_refresh ev) \<Longrightarrow>
   iteration_tail ev self loc = (self', st) \<Longrightarrow> self' = self"
  by (auto simp: iteration_tail_def Let_def parse_no_items split: if_splits)

lemma scroll_iteration_continues_below_limit:
  assumes "scroll_iteration r ex ev self loc = (self', loc', None)"
    "no_items (arrived_late ev)" "no_items (arrived_refresh ev)"
  shows "\<not> session_limit_reached self' loc'"
  using assms(1)
proof (cases rule: scroll_iteration_cases)
  case (raised e) then show ?thesis by simp
next
  case (ran s2 l2 n2 s3 st3 s4 st4)
  from iteration_tail_no_late[OF assms(2,3) ran(4)] have "s4 = s3" .
  with ran(5,6) show ?thesis by (auto split: if_splits)
qed

lemma scroll_loop_session_limit:
  assumes "scroll_loop r ex events self loc = (self', loc', SessionLimit)"
  shows "session_limit_reached self' loc'"
proof -
  have "SessionLimit = SessionLimit \<longrightarrow> session_limit_reached self' loc'"
  proof (rule scroll_loop_rule[where I = "\<lambda>s l. True"
        and Q = "\<lambda>s l x. x = SessionLimit \<longrightarrow> session_limit_reached s l", OF _ _ TrueI assms])
    fix s l s' l' st
    assume "scroll_iteration r ex (events (Suc (scroll_attempts l))) s
        (l\<lparr>scroll_attempts := Suc (scroll_attempts l)\<rparr>) = (s', l', st)"
    then show "case st of None \<Rightarrow> True | Some x \<Rightarrow> x = SessionLimit \<longrightarrow> session_limit_reached s' l'"
      using scroll_iteration_session_limit by (auto split: option.split)
  qed simp
  then show ?thesis by simp
qed

lemma overlap_check_empty:
  "overlap_check r ex self loc 0 = (self', loc', n') \<Longrightarrow> all_tweets self = [] \<Longrightarrow>
   all_tweets self' = [] \<and> n' = 0 \<and> scroll_attempts loc' = scroll_attempts loc"
  by (auto simp: overlap_check_def split: if_splits)

lemma streak_update_empty:
  "streak_update self loc 0 = (self', st) \<Longrightarrow> all_tweets self = [] \<Longrightarrow>
   all_tweets self' = [] \<and> (20 \<le> scroll_attempts loc \<longrightarrow> st = Some ZeroExtracted)"
  by (auto simp: streak_update_def Let_def split: if_splits)

lemma scroll_iteration_silent:
  assumes it: "scroll_iteration r ex ev self loc = (self', loc', st)"
    and e: "all_tweets self = []" and s: "silent ev"
  shows "all_tweets self' = [] \<and>
         (20 \<le> scroll_attempts loc \<longrightarrow> st = Some ZeroExtracted \<or> (\<exists>e. st = Some (Raised e)))"
  using it
proof (cases rule: scroll_iteration_cases)
  case (raised e') with e show ?thesis by simp
next
  case (ran s2 l2 n2 s3 st3 s4 st4)
  have p: "parse_tweets_from_timeline self (arrived ev) = self"
    using s by (simp add: silent_def parse_no_items)
  from ran(2) have oc: "overlap_check r ex self loc 0 = (s2, l2, n2)" by (simp add: p)
  note a = overlap_check_empty[OF oc e]
  from ran(3) a have su: "streak_update s2 l2 0 = (s3, st3)" by simp
  from a have e2: "all_tweets s2 = []" by simp
  note b = streak_update_empty[OF su e2]
  have "s4 = s3" using iteration_tail_no_late[OF _ _ ran(4)] s by (simp add: silent_def)
  with a b ran(6) show ?thesis by (auto split: if_splits)
qed

section \<open>Running the loop on a given feed\<close>

text \<open>
  One iteration at a time: the loop is left at the ceiling, is left by an iteration that
  stops, or goes on after an iteration that does not.
\<close>

lemma scroll_loop_ceiling:
  "\<not> int n < max_scroll_attempts self \<Longrightarrow>
   scroll_loop r ex events self \<lparr>scroll_attempts = n, resume_point_found = f, overlap_log = lg\<rparr> =
     (self, \<lparr>scroll_attempts = n, resume_point_found = f, overlap_log = lg\<rparr>, Ceiling)"
  by (simp add: scroll_loop.simps)

lemma scroll_loop_stop:
  "int n < max_scroll_attempts self \<Longrightarrow>
   scroll_iteration r ex ev self
     \<lparr>scroll_attempts = Suc n, resume_point_found = f, overlap_log = lg\<rparr> = (self', loc', Some x) \<Longrightarrow>
   events (Suc n) = ev \<Longrightarrow>
   scroll_loop r ex events self \<lparr>scroll_attempts = n, resume_point_found = f, overlap_log = lg\<rparr> =
     (self', loc', x)"
  by (simp add: scroll_loop.simps[of r ex events self] Let_def)

lemma scroll_loop_continue:
  "int n < max_scroll_attempts self \<Longrightarrow>
   scroll_iteration r ex ev self
     \<lparr>scroll_attempts = Suc n, resume_point_found = f, overlap_log = lg\<rparr> = (self', loc', None) \<Longrightarrow>
   events (Suc n) = ev \<Longrightarrow>
   scroll_loop r ex events self \<lparr>scroll_attempts = n, resume_point_found = f, overlap_log = lg\<rparr> =
     scroll_loop r ex events self' loc'"
  by (simp add: scroll_loop.simps[of r ex events self] Let_def)

lemma burst_parsed:
  "parse_tweets_from_timeline capped_scraper (map (\<lambda>i. Some (tw i [])) twelve_ids) =
   capped_scraper\<lparr>all_tweets := map (\<lambda>i. tw i []) twelve_ids, scraped_tweet_ids := set twelve_ids\<rparr>"
  by (simp add: parse_tweets_from_timeline_def append_tweet_def capped_scraper_def
      default_scraper_def twelve_ids_def tw_def insert_commute)

lemma parse_nil: "parse_tweets_from_timeline self [] = self"
  by (simp add: parse_tweets_from_timeline_def)

lemmas step_defs = parse_nil scroll_iteration_def overlap_check_def streak_update_def
  session_limit_reached_def iteration_tail_def truthy_str_def truthy_int_def
  Let_def quiet_def

lemma burst_session:
  "session_scroll (feed burst) None (Some 10) None default_scraper =
     (capped_scraper\<lparr>all_tweets := map (\<lambda>i. tw i []) twelve_ids,
                      scraped_tweet_ids := set twelve_ids\<rparr>,
      \<lparr>scroll_attempts = 1, resume_point_found = True, overlap_log = []\<rparr>, SessionLimit)"
proof -
  have start: "session_scroll (feed burst) None (Some 10) None default_scraper =
      scroll_loop None {} (scroll_events (feed burst)) capped_scraper
        \<lparr>scroll_attempts = 0, resume_point_found = True, overlap_log = []\<rparr>"
    by (simp add: session_scroll_unfold prepare_scraping_session_def parse_tweets_from_timeline_def
        feed_def burst_def capped_scraper_def default_scraper_def truthy_str_def)
  have ev: "scroll_events (feed burst) (Suc 0) =
      quiet\<lparr>arrived := map (\<lambda>i. Some (tw i [])) twelve_ids\<rparr>"
    by (simp add: feed_def burst_def)
  have it: "scroll_iteration None {} (quiet\<lparr>arrived := map (\<lambda>i. Some (tw i [])) twelve_ids\<rparr>)
      capped_scraper
      \<lparr>scroll_attempts = Suc 0, resume_point_found = True, overlap_log = []\<rparr> =
      (capped_scraper\<lparr>all_tweets := map (\<lambda>i. tw i []) twelve_ids,
                      scraped_tweet_ids := set twelve_ids\<rparr>,
       \<lparr>scroll_attempts = Suc 0, resume_point_found = True, overlap_log = []\<rparr>,
       Some SessionLimit)"
    by (simp add: step_defs overlap_count_def burst_parsed)
       (simp add: capped_scraper_def default_scraper_def twelve_ids_def)
  have lt: "int 0 < max_scroll_attempts capped_scraper"
    by (simp add: capped_scraper_def default_scraper_def)
  show ?thesis
    unfolding start scroll_loop_stop[where events = "scroll_events (feed burst)", OF lt it ev]
    by simp
qed

lemma capped_iteration:
  "scroll_iteration None {} (quiet\<lparr>arrived := [Some (tw ''7'' ''x'')]\<rparr>) capped_scraper
      \<lparr>scroll_attempts = Suc 0, resume_point_found = True, overlap_log = []\<rparr> =
   (capped_scraper\<lparr>all_tweets := [tw ''7'' ''x''], scraped_tweet_ids := {''7''}\<rparr>,
    \<lparr>scroll_attempts = Suc 0, resume_point_found = True, overlap_log = []\<rparr>, None)"
  by (simp add: step_defs capped_scraper_def default_scraper_def
      parse_tweets_from_timeline_def append_tweet_def tw_def)

lemma new_parsed:
  "parse_tweets_from_timeline resuming_scraper (map (\<lambda>i. Some (tw i [])) new_ids) =
   resuming_scraper\<lparr>all_tweets := map (\<lambda>i. tw i []) new_ids, scraped_tweet_ids := set new_ids\<rparr>"
  by (simp add: parse_tweets_from_timeline_def append_tweet_def resuming_scraper_def
      default_scraper_def new_ids_def archived_ids_def tw_def insert_commute)

lemma old_parsed:
  "parse_tweets_from_timeline
     (resuming_scraper\<lparr>all_tweets := map (\<lambda>i. tw i []) new_ids, scraped_tweet_ids := set new_ids\<rparr>)
     (map (\<lambda>i. Some (tw i [])) old_ids) =
   resuming_scraper\<lparr>all_tweets := map (\<lambda>i. tw i []) new_ids, scraped_tweet_ids := set new_ids\<rparr>"
  by (simp add: parse_tweets_from_timeline_def append_tweet_def resuming_scraper_def
      default_scraper_def old_ids_def archived_ids_def tw_def)

lemma new_overlap:
  "overlap_count
     (resuming_scraper\<lparr>all_tweets := map (\<lambda>i. tw i []) new_ids, scraped_tweet_ids := set new_ids\<rparr>)
     (set archived_ids) = 0"
  by (simp add: overlap_count_def new_ids_def archived_ids_def tw_def)

lemma overlap_session:
  "session_scroll (feed overlap_stream) (Some ''1'') None (Some (set archived_ids))
     (default_scraper\<lparr>max_scroll_attempts := 2\<rparr>) =
     (resuming_scraper\<lparr>all_tweets := map (\<lambda>i. tw i []) new_ids, scraped_tweet_ids := set new_ids,
        scroll_attempts_without_new := 1\<rparr>,
      \<lparr>scroll_attempts = 2, resume_point_found = False, overlap_log = []\<rparr>, Ceiling)"
proof -
  let ?ev = "scroll_events (feed overlap_stream)"
  let ?s1 = "resuming_scraper\<lparr>all_tweets := map (\<lambda>i. tw i []) new_ids,
     scraped_tweet_ids := set new_ids\<rparr>"
  have start: "session_scroll (feed overlap_stream) (Some ''1'') None (Some (set archived_ids))
     (default_scraper\<lparr>max_scroll_attempts := 2\<rparr>) =
      scroll_loop (Some ''1'') (set archived_ids) ?ev resuming_scraper
        \<lparr>scroll_attempts = 0, resume_point_found = False, overlap_log = []\<rparr>"
    by (simp add: session_scroll_unfold prepare_scraping_session_def parse_tweets_from_timeline_def
        feed_def overlap_stream_def resuming_scraper_def default_scraper_def truthy_str_def)
  have ev1: "?ev (Suc 0) = quiet\<lparr>arrived := map (\<lambda>i. Some (tw i [])) new_ids\<rparr>"
    by (simp add: feed_def overlap_stream_def)
  have ev2: "?ev (Suc (Suc 0)) = quiet\<lparr>arrived := map (\<lambda>i. Some (tw i [])) old_ids\<rparr>"
    by (simp add: feed_def overlap_stream_def)
  have ne: "set archived_ids \<noteq> {}" by (simp add: archived_ids_def)
  have it1: "scroll_iteration (Some ''1'') (set archived_ids)
      (quiet\<lparr>arrived := map (\<lambda>i. Some (tw i [])) new_ids\<rparr>) resuming_scraper
      \<lparr>scroll_attempts = Suc 0, resume_point_found = False, overlap_log = []\<rparr> =
      (?s1, \<lparr>scroll_attempts = Suc 0, resume_point_found = False, overlap_log = []\<rparr>, None)"
    by (simp add: step_defs new_parsed new_overlap ne)
       (simp add: resuming_scraper_def default_scraper_def new_ids_def)
  have it2: "scroll_iteration (Some ''1'') (set archived_ids)
      (quiet\<lparr>arrived := map (\<lambda>i. Some (tw i [])) old_ids\<rparr>) ?s1
      \<lparr>scroll_attempts = Suc (Suc 0), resume_point_found = False, overlap_log = []\<rparr> =
      (?s1\<lparr>scroll_attempts_without_new := 1\<rparr>,
       \<lparr>scroll_attempts = Suc (Suc 0), resume_point_found = False, overlap_log = []\<rparr>, None)"
    by (simp add: step_defs old_parsed new_overlap ne)
       (simp add: resuming_scraper_def default_scraper_def new_ids_def)
  have lt0: "int 0 < max_scroll_attempts resuming_scraper"
    and lt1: "int (Suc 0) < max_scroll_attempts ?s1"
    and ge2: "\<not> int (Suc (Suc 0)) < max_scroll_attempts (?s1\<lparr>scroll_attempts_without_new := 1\<rparr>)"
    by (simp_all add: resuming_scraper_def default_scraper_def)
  show ?thesis
    unfolding start
      scroll_loop_continue[where events = ?ev, OF lt0 it1 ev1]
      scroll_loop_continue[where events = ?ev, OF lt1 it2 ev2]
      scroll_loop_ceiling[where events = ?ev, OF ge2]
    by (simp add: numeral_2_eq_2)
qed

lemma eager_session:
  "session_scroll (feed late_item) (Some ''10'') None (Some {''10'', ''20''})
     (default_scraper\<lparr>overlap_threshold := 0, max_scroll_attempts := 2\<rparr>) =
     (eager_scraper\<lparr>all_tweets := [tw ''30'' []], scraped_tweet_ids := {''30''}\<rparr>,
      \<lparr>scroll_attempts = 2, resume_point_found = True, overlap_log = [(0, 0)]\<rparr>, Ceiling)"
proof -
  let ?ev = "scroll_events (feed late_item)"
  let ?s1 = "eager_scraper\<lparr>scroll_attempts_without_new := 1\<rparr>"
  let ?s2 = "eager_scraper\<lparr>all_tweets := [tw ''30'' []], scraped_tweet_ids := {''30''}\<rparr>"
  have start: "session_scroll (feed late_item) (Some ''10'') None (Some {''10'', ''20''})
     (default_scraper\<lparr>overlap_threshold := 0, max_scroll_attempts := 2\<rparr>) =
      scroll_loop (Some ''10'') {''10'', ''20''} ?ev eager_scraper
        \<lparr>scroll_attempts = 0, resume_point_found = False, overlap_log = []\<rparr>"
    by (simp add: session_scroll_unfold prepare_scraping_session_def parse_tweets_from_timeline_def
        feed_def late_item_def eager_scraper_def default_scraper_def truthy_str_def)
  have ev1: "?ev (Suc 0) = quiet\<lparr>arrived := []\<rparr>"
    by (simp add: feed_def late_item_def)
  have ev2: "?ev (Suc (Suc 0)) = quiet\<lparr>arrived := [Some (tw ''30'' [])]\<rparr>"
    by (simp add: feed_def late_item_def)
  have it1: "scroll_iteration (Some ''10'') {''10'', ''20''} (quiet\<lparr>arrived := []\<rparr>) eager_scraper
      \<lparr>scroll_attempts = Suc 0, resume_point_found = False, overlap_log = []\<rparr> =
      (?s1, \<lparr>scroll_attempts = Suc 0, resume_point_found = True, overlap_log = [(0, 0)]\<rparr>, None)"
    by (simp add: step_defs overlap_count_def eager_scraper_def default_scraper_def)
  have it2: "scroll_iteration (Some ''10'') {''10'', ''20''}
      (quiet\<lparr>arrived := [Some (tw ''30'' [])]\<rparr>) ?s1
      \<lparr>scroll_attempts = Suc (Suc 0), resume_point_found = True, overlap_log = [(0, 0)]\<rparr> =
      (?s2, \<lparr>scroll_attempts = Suc (Suc 0), resume_point_found = True, overlap_log = [(0, 0)]\<rparr>,
       None)"
    by (simp add: step_defs overlap_count_def eager_scraper_def default_scraper_def
        parse_tweets_from_timeline_def append_tweet_def tw_def)
  have lt0: "int 0 < max_scroll_attempts eager_scraper"
    and lt1: "int (Suc 0) < max_scroll_attempts ?s1"
    and ge2: "\<not> int (Suc (Suc 0)) < max_scroll_attempts ?s2"
    by (simp_all add: eager_scraper_def default_scraper_def)
  show ?thesis
    unfolding start
      scroll_loop_continue[where events = ?ev, OF lt0 it1 ev1]
      scroll_loop_continue[where events = ?ev, OF lt1 it2 ev2]
      scroll_loop_ceiling[where events = ?ev, OF ge2]
    by (simp add: numeral_2_eq_2)
qed

lemma one_tweet_session:
  "session_scroll (feed one_tweet) None None (Some {}) (default_scraper\<lparr>max_scroll_attempts := 1\<rparr>) =
     (one_scroll\<lparr>all_tweets := [tw ''7'' ''x''], scraped_tweet_ids := {''7''}\<rparr>,
      \<lparr>scroll_attempts = 1, resume_point_found = True, overlap_log = []\<rparr>, Ceiling)"
proof -
  let ?ev = "scroll_events (feed one_tweet)"
  let ?s1 = "one_scroll\<lparr>all_tweets := [tw ''7'' ''x''], scraped_tweet_ids := {''7''}\<rparr>"
  have start: "session_scroll (feed one_tweet) None None (Some {})
      (default_scraper\<lparr>max_scroll_attempts := 1\<rparr>) =
      scroll_loop None {} ?ev one_scroll
        \<lparr>scroll_attempts = 0, resume_point_found = True, overlap_log = []\<rparr>"
    by (simp add: session_scroll_unfold prepare_scraping_session_def parse_tweets_from_timeline_def
        feed_def one_tweet_def one_scroll_def default_scraper_def truthy_str_def)
  have ev1: "?ev (Suc 0) = quiet\<lparr>arrived := [Some (tw ''7'' ''x'')]\<rparr>"
    by (simp add: feed_def one_tweet_def)
  have it1: "scroll_iteration None {} (quiet\<lparr>arrived := [Some (tw ''7'' ''x'')]\<rparr>) one_scroll
      \<lparr>scroll_attempts = Suc 0, resume_point_found = True, overlap_log = []\<rparr> =
      (?s1, \<lparr>scroll_attempts = Suc 0, resume_point_found = True, overlap_log = []\<rparr>, None)"
    by (simp add: step_defs one_scroll_def default_scraper_def
        parse_tweets_from_timeline_def append_tweet_def tw_def)
  have lt0: "int 0 < max_scroll_attempts one_scroll"
    and ge1: "\<not> int (Suc 0) < max_scroll_attempts ?s1"
    by (simp_all add: one_scroll_def default_scraper_def)
  show ?thesis
    unfolding start
      scroll_loop_continue[where events = ?ev, OF lt0 it1 ev1]
      scroll_loop_ceiling[where events = ?ev, OF ge1]
    by simp
qed

lemma failing_session:
  "session_scroll failing_scroll None None (Some {}) default_scraper =
     (fresh_scraper\<lparr>all_tweets := [tw ''7'' ''x''], scraped_tweet_ids := {''7''}\<rparr>,
      \<lparr>scroll_attempts = 2, resume_point_found = True, overlap_log = []\<rparr>, Raised ''boom'')"
proof -
  let ?ev = "scroll_events failing_scroll"
  let ?s1 = "fresh_scraper\<lparr>all_tweets := [tw ''7'' ''x''], scraped_tweet_ids := {''7''}\<rparr>"
  have start: "session_scroll failing_scroll None None (Some {}) default_scraper =
      scroll_loop None {} ?ev fresh_scraper
        \<lparr>scroll_attempts = 0, resume_point_found = True, overlap_log = []\<rparr>"
    by (simp add: session_scroll_unfold prepare_scraping_session_def parse_tweets_from_timeline_def
        failing_scroll_def feed_def one_tweet_def fresh_scraper_def default_scraper_def truthy_str_def)
  have ev1: "?ev (Suc 0) = quiet\<lparr>arrived := [Some (tw ''7'' ''x'')]\<rparr>"
    by (simp add: failing_scroll_def feed_def one_tweet_def)
  have ev2: "?ev (Suc (Suc 0)) = quiet\<lparr>scroll_error := Some ''boom''\<rparr>"
    by (simp add: failing_scroll_def feed_def one_tweet_def)
  have it1: "scroll_iteration None {} (quiet\<lparr>arrived := [Some (tw ''7'' ''x'')]\<rparr>) fresh_scraper
      \<lparr>scroll_attempts = Suc 0, resume_point_found = True, overlap_log = []\<rparr> =
      (?s1, \<lparr>scroll_attempts = Suc 0, resume_point_found = True, overlap_log = []\<rparr>, None)"
    by (simp add: step_defs fresh_scraper_def default_scraper_def
        parse_tweets_from_timeline_def append_tweet_def tw_def)
  have it2: "scroll_iteration None {} (quiet\<lparr>scroll_error := Some ''boom''\<rparr>) ?s1
      \<lparr>scroll_attempts = Suc (Suc 0), resume_point_found = True, overlap_log = []\<rparr> =
      (?s1, \<lparr>scroll_attempts = Suc (Suc 0), resume_point_found = True, overlap_log = []\<rparr>,
       Some (Raised ''boom''))"
    by (simp add: step_defs)
  have lt0: "int 0 < max_scroll_attempts fresh_scraper"
    and lt1: "int (Suc 0) < max_scroll_attempts ?s1"
    by (simp_all add: fresh_scraper_def default_scraper_def)
  show ?thesis
    unfolding start
      scroll_loop_continue[where events = ?ev, OF lt0 it1 ev1]
      scroll_loop_stop[where events = ?ev, OF lt1 it2 ev2]
    by (simp add: numeral_2_eq_2)
qed

section \<open>The orchestrator\<close>

lemma write_file_distinct:
  "(case old of Written a \<Rightarrow> distinct (map tweet_id (tweets a)) | _ \<Rightarrow> True) \<Longrightarrow>
   distinct (map tweet_id ts) \<Longrightarrow>
   (case write_file w (output_data ts cp) old of
      Written a \<Rightarrow> distinct (map tweet_id (tweets a)) | _ \<Rightarrow> True)"
  by (cases w) (simp_all add: output_data_def)

lemma persist_unfold:
  "save_dir_ok env \<Longrightarrow>
   persist env cp all d =
     Inr [d,
          d\<lparr>checkpoint_file := write_file (checkpoint_write env) cp (checkpoint_file d)\<rparr>,
          d\<lparr>checkpoint_file := write_file (checkpoint_write env) cp (checkpoint_file d),
            tweets_file :=
              (case sorted_tweets all of
                 None \<Rightarrow> tweets_file d
               | Some ts \<Rightarrow>
                   write_file (tweets_write env) (output_data ts (Some cp)) (tweets_file d))\<rparr>]"
  by (simp add: persist_def save_checkpoint_def save_all_tweets_def split: option.split)

lemma persist_raises:
  "\<not> save_dir_ok env \<Longrightarrow> persist env cp all d = Inl ''mkdir failed''"
  by (simp add: persist_def save_checkpoint_def)

lemma persist_distinct:
  assumes "persist env cp all d = Inr ds" "archive_ids_distinct d"
  shows "archive_ids_distinct (last ds)"
proof (cases "save_dir_ok env")
  case False
  with assms show ?thesis by (simp add: persist_raises)
next
  case True
  show ?thesis
  proof (cases "sorted_tweets all")
    case None
    with assms True show ?thesis by (auto simp: persist_unfold archive_ids_distinct_def)
  next
    case (Some ts)
    from write_file_distinct[of "tweets_file d" ts "tweets_write env" "Some cp"]
      sorted_tweets_distinct[OF Some] assms True Some
    show ?thesis by (auto simp: persist_unfold archive_ids_distinct_def)
  qed
qed

text \<open>
  The orchestrator after a scrape that returned without an error.
\<close>

lemma xscraper_after_scrape:
  assumes "login_ok env" "resume \<longrightarrow> load_dir_ok env"
    "resume_plan resume d = (cp, old, rid, ids)"
    "pw_scrape_user_tweets (browser env) rid (effective_limit env m) (Some ids) self =
       Inr (res, self')"
    "error res = None"
    "all = (if old \<noteq> [] then merge_tweets old (result_tweets res) else result_tweets res)"
  shows "xscraper_scrape_user_tweets env resume m self d =
     (if all \<noteq> [] then
        (case checkpoint_data cp all (result_tweets res) of
           None \<Rightarrow> (Raises ''ValueError'', d)
         | Some c \<Rightarrow>
             (case persist env c all d of
                Inl e \<Rightarrow> (Raises e, d)
              | Inr ds \<Rightarrow> (Returns (length all) (apply_filters (filters env) all), last ds)))
      else (Returns (length all) (apply_filters (filters env) all), d))"
proof -
  have l: "\<not> (resume \<and> \<not> load_dir_ok env)" using assms(2) by blast
  show ?thesis
    unfolding assms(6) xscraper_scrape_user_tweets_def
    by (simp add: l assms(1,3,4,5) Let_def)
qed

lemma xscraper_error_returned:
  assumes "login_ok env" "resume \<longrightarrow> load_dir_ok env"
    "resume_plan resume d = (cp, old, rid, ids)"
    "pw_scrape_user_tweets (browser env) rid (effective_limit env m) (Some ids) self = Inr (res, self')"
    "error res \<noteq> None"
  shows "xscraper_scrape_user_tweets env resume m self d = (ReturnsError res, d)"
  using assms by (auto simp: xscraper_scrape_user_tweets_def)

lemma xscraper_disk:
  "snd (xscraper_scrape_user_tweets env resume m self d) = d \<or>
   (\<exists>cp all ds. persist env cp all d = Inr ds \<and>
       snd (xscraper_scrape_user_tweets env resume m self d) = last ds)"
proof (cases "login_ok env \<and> (resume \<longrightarrow> load_dir_ok env)")
  case False
  then show ?thesis
    by (auto simp: xscraper_scrape_user_tweets_def split: prod.splits)
next
  case True
  obtain cp old rid ids where plan: "resume_plan resume d = (cp, old, rid, ids)"
    by (cases "resume_plan resume d") auto
  show ?thesis
  proof (cases "pw_scrape_user_tweets (browser env) rid (effective_limit env m) (Some ids) self")
    case (Inl e)
    with True plan show ?thesis by (auto simp: xscraper_scrape_user_tweets_def)
  next
    case (Inr x)
    obtain res self' where x: "x = (res, self')" by (cases x)
    show ?thesis
    proof (cases "error res = None")
      case False
      from xscraper_error_returned[OF _ _ plan Inr[unfolded x] False] True
      show ?thesis by simp
    next
      case e: True
      define all where
        "all = (if old \<noteq> [] then merge_tweets old (result_tweets res) else result_tweets res)"
      from xscraper_after_scrape[OF _ _ plan Inr[unfolded x] e all_def] True
      show ?thesis by (auto split: option.splits sum.splits)
    qed
  qed
qed

lemma feed_fields:
  "page_initialized (feed f)" "goto_error (feed f) = None" "\<not> account_missing (feed f)"
  by (simp_all add: feed_def)

lemma one_tweet_scrape:
  "pw_scrape_user_tweets (feed one_tweet) None None (Some {})
     (default_scraper\<lparr>max_scroll_attempts := 1\<rparr>) =
   Inr (\<lparr>error = None, result_tweets = [tw ''7'' ''x'']\<rparr>,
        one_scroll\<lparr>all_tweets := [tw ''7'' ''x''], scraped_tweet_ids := {''7''}\<rparr>)"
  by (simp add: pw_scrape_user_tweets_def one_tweet_session feed_fields)

lemma key_7: "id_key (tw ''7'' ''x'') = Some 7"
  by (simp add: id_key_def py_isdigit_def py_int_def is_digit_def is_decimal_def
      int_max_str_digits_def tw_def)

lemma checkpoint_7_data:
  "checkpoint_data None [tw ''7'' ''x''] [tw ''7'' ''x''] = Some checkpoint_7"
  by (simp add: checkpoint_data_def key_ok_def key_7) (simp add: checkpoint_7_def tw_def)

lemma sorted_7: "sorted_tweets [tw ''7'' ''x''] = Some [tw ''7'' ''x'']"
  by (simp add: sorted_tweets_def sorted_reverse_def dict_contains_def dict_keys_def
      dict_values_def key_ok_def key_7)
     (simp add: tw_def)

lemma crawl_of_fields:
  "config_limit (crawl_of b w) = 0" "filters (crawl_of b w) = pass_all"
  "load_dir_ok (crawl_of b w)" "login_ok (crawl_of b w)" "browser (crawl_of b w) = b"
  "save_dir_ok (crawl_of b w)" "checkpoint_write (crawl_of b w) = WriteOk"
  "tweets_write (crawl_of b w) = w"
  by (simp_all add: crawl_of_def)

lemma one_tweet_crawl:
  "xscraper_scrape_user_tweets (crawl_of (feed one_tweet) w) False None
     (default_scraper\<lparr>max_scroll_attempts := 1\<rparr>) empty_disk =
   (Returns 1 [tw ''7'' ''x''],
    \<lparr>checkpoint_file = Written checkpoint_7,
     tweets_file = write_file w (output_data [tw ''7'' ''x''] (Some checkpoint_7)) Absent\<rparr>)"
proof -
  have f: "apply_filters pass_all [tw ''7'' ''x''] = [tw ''7'' ''x'']"
    by (simp add: apply_filters_def passes_filters_def pass_all_def language_allowed_def tw_def)
  have p: "persist (crawl_of (feed one_tweet) w) checkpoint_7 [tw ''7'' ''x''] empty_disk =
      Inr [empty_disk, \<lparr>checkpoint_file = Written checkpoint_7, tweets_file = Absent\<rparr>,
           \<lparr>checkpoint_file = Written checkpoint_7,
            tweets_file = write_file w (output_data [tw ''7'' ''x''] (Some checkpoint_7)) Absent\<rparr>]"
    by (simp add: persist_unfold crawl_of_def empty_disk_def sorted_7)
  show ?thesis
    by (simp add: xscraper_scrape_user_tweets_def resume_plan_def effective_limit_def
        crawl_of_fields one_tweet_scrape checkpoint_7_data p f Let_def)
qed

lemma pw_scrape_result:
  assumes "page_initialized env" "goto_error env = None" "\<not> account_missing env"
  shows "pw_scrape_user_tweets env r m ex self =
     Inr (\<lparr>error = (case snd (snd (session_scroll env r m ex self)) of
                      Raised e \<Rightarrow> Some e | _ \<Rightarrow> None),
           result_tweets = all_tweets (fst (session_scroll env r m ex self))\<rparr>,
          fst (session_scroll env r m ex self))"
proof -
  obtain s l st where x: "session_scroll env r m ex self = (s, l, st)"
    by (cases "session_scroll env r m ex self") auto
  show ?thesis using assms by (cases st) (simp_all add: pw_scrape_user_tweets_def x)
qed

section \<open>The order of the merge and the keys of the sort\<close>

lemma merge_loop_keys:
  "map fst (merge_loop d ts) =
     foldl (\<lambda>acc x. if x \<in> set acc then acc else acc @ [x]) (map fst d)
       (map tweet_id (filter has_id ts))"
  by (induction ts arbitrary: d) (simp_all add: has_id_def dict_set_keys)

lemma merge_tweets_keys:
  "map fst (merge_loop (merge_loop [] e) n) = first_seen (map tweet_id (filter has_id (e @ n)))"
  by (simp add: merge_loop_keys first_seen_def)

lemma dict_values_by_key:
  "distinct (map fst d) \<Longrightarrow> map snd d = map (\<lambda>k. the (map_of d k)) (map fst d)"
proof (induction d)
  case Nil then show ?case by simp
next
  case (Cons e d)
  obtain k v where e: "e = (k, v)" by (cases e)
  have "map (\<lambda>k'. the (map_of ((k, v) # d) k')) (map fst d) = map (\<lambda>k'. the (map_of d k')) (map fst d)"
    using Cons.prems by (intro map_cong) (auto simp: e)
  with Cons show ?case by (simp add: e)
qed

lemma merge_tweets_in_order:
  "merge_tweets e n =
     map (\<lambda>i. the (spec_merge_mapping (filter has_id e) (filter has_id n) i))
       (first_seen (map tweet_id (filter has_id (e @ n))))"
proof -
  let ?d = "merge_loop (merge_loop [] e) n"
  have wf: "dict_wf ?d" by (rule merge_tweets_wf)
  then have "distinct (map fst ?d)" by (simp add: dict_wf_def)
  from dict_values_by_key[OF this]
  show ?thesis
    by (simp add: merge_tweets_def dict_values_def merge_tweets_keys map_of_merge_loop
        spec_merge_mapping_def)
qed

lemma dict_set_values: "(a, b) \<in> set (dict_set d k v) \<Longrightarrow> b = v \<or> (a, b) \<in> set d"
  by (induction d) (auto split: if_splits)

lemma unique_loop_values:
  "(a, b) \<in> set (unique_loop d ts) \<Longrightarrow> (a, b) \<in> set d \<or> b \<in> set ts"
proof (induction ts arbitrary: d)
  case Nil then show ?case by simp
next
  case (Cons t ts)
  show ?case
  proof (cases "tweet_id t \<noteq> [] \<and> \<not> dict_contains d (tweet_id t)")
    case True
    with Cons.prems have "(a, b) \<in> set (unique_loop (dict_set d (tweet_id t) t) ts)" by simp
    from Cons.IH[OF this] dict_set_values[of a b d "tweet_id t" t] show ?thesis by auto
  next
    case False
    with Cons.prems have "(a, b) \<in> set (unique_loop d ts)" by auto
    from Cons.IH[OF this] show ?thesis by auto
  qed
qed

lemma sorted_tweets_total: "list_all key_ok all \<Longrightarrow> sorted_tweets all \<noteq> None"
  using unique_loop_values[of _ _ "[]" all]
  by (fastforce simp: sorted_tweets_def sorted_reverse_def dict_values_def list_all_iff)

lemma checkpoint_data_total: "checkpoint_data prev all new \<noteq> None \<longleftrightarrow> list_all key_ok all"
  by (simp add: checkpoint_data_def Let_def)

text \<open>The new items of a merge are in its result.\<close>

lemma spec_insert_all_snoc:
  "spec_insert_all m (xs @ [x]) = (spec_insert_all m xs)(tweet_id x \<mapsto> x)"
  by (simp add: spec_insert_all_def)

lemma spec_insert_all_last:
  "distinct (map tweet_id xs) \<Longrightarrow> t \<in> set xs \<Longrightarrow> spec_insert_all m xs (tweet_id t) = Some t"
proof (induction xs rule: rev_induct)
  case Nil then show ?case by simp
next
  case (snoc x xs)
  show ?case
  proof (cases "t = x")
    case True then show ?thesis by (simp add: spec_insert_all_snoc)
  next
    case False
    with snoc.prems have t: "t \<in> set xs" and d: "distinct (map tweet_id xs)"
      and n: "tweet_id x \<notin> tweet_id ` set xs" by auto
    from t n have "tweet_id t \<noteq> tweet_id x" by (metis imageI)
    with snoc.IH[OF d t] show ?thesis by (simp add: spec_insert_all_snoc)
  qed
qed

lemma merge_tweets_keeps_new:
  assumes "distinct (map tweet_id new)" "list_all has_id new"
  shows "set new \<subseteq> set (merge_tweets old new)"
proof
  fix t assume t: "t \<in> set new"
  have f: "filter has_id new = new" using assms(2) by (simp add: list_all_iff)
  have "spec_merge_mapping (filter has_id old) (filter has_id new) (tweet_id t) = Some t"
    unfolding spec_merge_mapping_def f by (rule spec_insert_all_last[OF assms(1) t])
  then show "t \<in> set (merge_tweets old new)"
    unfolding merge_tweets_ran by (auto simp: ran_def)
qed

section \<open>The ids of the buffer\<close>

lemma append_tweet_ids: "ids_present self \<Longrightarrow> ids_present (append_tweet self p)"
  by (auto simp: ids_present_def append_tweet_def has_id_def split: option.splits)

lemma parse_tweets_ids: "ids_present self \<Longrightarrow> ids_present (parse_tweets_from_timeline self ps)"
  unfolding parse_tweets_from_timeline_def
  by (induction ps arbitrary: self) (simp_all add: append_tweet_ids)

lemma scroll_iteration_ids:
  assumes "scroll_iteration r ex ev self loc = (self', loc', st)" "ids_present self"
  shows "ids_present self'"
  using assms(1)
proof (cases rule: scroll_iteration_cases)
  case (raised e) with assms show ?thesis by simp
next
  case (ran s2 l2 n2 s3 st3 s4 st4)
  have i1: "ids_present (parse_tweets_from_timeline self (arrived ev))"
    using assms(2) by (rule parse_tweets_ids)
  have i2: "ids_present s2"
    using ran(2) i1 by (auto simp: overlap_check_def ids_present_def split: if_splits)
  have i3: "ids_present s3"
    using streak_update_buffer[OF ran(3)] i2 by (simp add: ids_present_def)
  have i4: "ids_present s4"
    using ran(4) i3 by (auto simp: iteration_tail_def Let_def parse_tweets_ids split: if_splits)
  from ran(6) i3 i4 show ?thesis by (auto split: if_splits)
qed

lemma session_scroll_ids:
  assumes "session_scroll env r m ex self = (self', loc', stp)"
  shows "ids_present self'"
proof (rule scroll_loop_rule[where I = "\<lambda>s l. ids_present s" and Q = "\<lambda>s l x. ids_present s",
      OF _ _ _ assms[unfolded session_scroll_unfold]])
  show "ids_present ((parse_tweets_from_timeline (prepare_scraping_session m ex self)
      (arrived_on_load env))\<lparr>scroll_attempts_without_new := 0\<rparr>)"
    using parse_tweets_ids[of "prepare_scraping_session m ex self" "arrived_on_load env"]
    by (simp add: ids_present_def prepare_scraping_session_def)
next
  fix s l s' l' st
  assume "ids_present s"
    "scroll_iteration r (case ex of None \<Rightarrow> {} | Some e \<Rightarrow> e)
        (scroll_events env (Suc (scroll_attempts l))) s
        (l\<lparr>scroll_attempts := Suc (scroll_attempts l)\<rparr>) = (s', l', st)"
  then show "case st of None \<Rightarrow> ids_present s' | Some x \<Rightarrow> ids_present s'"
    using scroll_iteration_ids by (auto split: option.split)
qed

section \<open>The loop without progress\<close>

lemma streak_update_zero_extracted:
  "streak_update self loc n = (self', Some ZeroExtracted) \<Longrightarrow> 20 \<le> scroll_attempts loc"
  by (auto simp: streak_update_def Let_def split: if_splits)

lemma scroll_iteration_zero_extracted:
  assumes "scroll_iteration r ex ev self loc = (self', loc', Some ZeroExtracted)"
  shows "20 \<le> scroll_attempts loc"
  using assms
proof (cases rule: scroll_iteration_cases)
  case (raised e) then show ?thesis by simp
next
  case (ran s2 l2 n2 s3 st3 s4 st4)
  have l: "scroll_attempts l2 = scroll_attempts loc"
    using overlap_check_frame[OF ran(2)] by simp
  from ran(6) have "st3 = Some ZeroExtracted"
    using iteration_tail_stops[of ev s3 l2 s4] ran(4) by (auto split: if_splits)
  with ran(3) streak_update_zero_extracted l show ?thesis by metis
qed

lemma scroll_loop_zero_progress:
  assumes res: "scroll_loop r ex events self loc = (self', loc', stp)"
    and e: "all_tweets self = []" and n: "scroll_attempts loc < 20"
    and s: "\<And>n. silent (events n)"
  shows "all_tweets self' = [] \<and> scroll_attempts loc' \<le> 20 \<and>
         (stp = ZeroExtracted \<longrightarrow> scroll_attempts loc' = 20) \<and>
         (scroll_attempts loc' = 20 \<longrightarrow> stp = ZeroExtracted \<or> (\<exists>e. stp = Raised e)) \<and>
         (stp = Ceiling \<longrightarrow> max_scroll_attempts self < 20)"
proof (rule scroll_loop_rule[where
      I = "\<lambda>s l. all_tweets s = [] \<and> scroll_attempts l < 20 \<and>
                  max_scroll_attempts s = max_scroll_attempts self"
      and Q = "\<lambda>s l x. all_tweets s = [] \<and> scroll_attempts l \<le> 20 \<and>
         (x = ZeroExtracted \<longrightarrow> scroll_attempts l = 20) \<and>
         (scroll_attempts l = 20 \<longrightarrow> x = ZeroExtracted \<or> (\<exists>e. x = Raised e)) \<and>
         (x = Ceiling \<longrightarrow> max_scroll_attempts self < 20)", OF _ _ _ res])
  show "all_tweets self = [] \<and> scroll_attempts loc < 20 \<and>
        max_scroll_attempts self = max_scroll_attempts self" using e n by simp
next
  fix s l
  assume "all_tweets s = [] \<and> scroll_attempts l < 20 \<and>
          max_scroll_attempts s = max_scroll_attempts self"
    "\<not> int (scroll_attempts l) < max_scroll_attempts s"
  then show "all_tweets s = [] \<and> scroll_attempts l \<le> 20 \<and>
         (Ceiling = ZeroExtracted \<longrightarrow> scroll_attempts l = 20) \<and>
         (scroll_attempts l = 20 \<longrightarrow> Ceiling = ZeroExtracted \<or> (\<exists>e. Ceiling = Raised e)) \<and>
         (Ceiling = Ceiling \<longrightarrow> max_scroll_attempts self < 20)"
    by auto
next
  fix s l s' l' st
  assume I: "all_tweets s = [] \<and> scroll_attempts l < 20 \<and>
          max_scroll_attempts s = max_scroll_attempts self"
    and it: "scroll_iteration r ex (events (Suc (scroll_attempts l))) s
        (l\<lparr>scroll_attempts := Suc (scroll_attempts l)\<rparr>) = (s', l', st)"
  from scroll_iteration_frame[OF it]
  have f: "scroll_attempts l' = Suc (scroll_attempts l)" "max_scroll_attempts s' = max_scroll_attempts s"
    by (simp_all add: same_config_def)
  from I have e: "all_tweets s = []" by simp
  note z = scroll_iteration_silent[OF it e s]
  show "case st of
          None \<Rightarrow> all_tweets s' = [] \<and> scroll_attempts l' < 20 \<and>
            max_scroll_attempts s' = max_scroll_attempts self
        | Some x \<Rightarrow> all_tweets s' = [] \<and> scroll_attempts l' \<le> 20 \<and>
            (x = ZeroExtracted \<longrightarrow> scroll_attempts l' = 20) \<and>
            (scroll_attempts l' = 20 \<longrightarrow> x = ZeroExtracted \<or> (\<exists>e. x = Raised e)) \<and>
            (x = Ceiling \<longrightarrow> max_scroll_attempts self < 20)"
  proof (cases st)
    case None
    with z f I show ?thesis by auto
  next
    case (Some x)
    with it have c: "x \<noteq> Ceiling" using scroll_iteration_not_ceiling by blast
    have "20 \<le> Suc (scroll_attempts l)" if "x = ZeroExtracted"
      using scroll_iteration_zero_extracted it Some that by fastforce
    with Some z f I c show ?thesis by auto
  qed
qed

text \<open>Nothing else stops the loop: it reaches the twentieth attempt.\<close>

lemma scroll_iteration_undisturbed:
  assumes it: "scroll_iteration r ex ev self loc = (self', loc', st)"
    and e: "all_tweets self = []" and s: "silent ev" and u: "undisturbed ev"
    and c: "scroll_attempts_without_new self < int (scroll_attempts loc)"
    and a: "scroll_attempts loc \<le> 20" "1 \<le> scroll_attempts loc"
    and m: "20 \<le> max_attempts_without_new self"
    and cap: "\<forall>x. max_tweets_per_session self = Some x \<longrightarrow> 0 \<le> x"
  shows "scroll_attempts_without_new self' \<le> int (scroll_attempts loc) \<and>
         (if scroll_attempts loc = 20 then st = Some ZeroExtracted else st = None)"
  using it
proof (cases rule: scroll_iteration_cases)
  case (raised e') with u show ?thesis by (simp add: undisturbed_def)
next
  case (ran s2 l2 n2 s3 st3 s4 st4)
  have p: "parse_tweets_from_timeline self (arrived ev) = self"
    using s by (simp add: silent_def parse_no_items)
  from ran(2) have oc: "overlap_check r ex self loc 0 = (s2, l2, n2)" by (simp add: p e)
  have s2: "all_tweets s2 = []" "n2 = 0" "scroll_attempts l2 = scroll_attempts loc"
    "scroll_attempts_without_new s2 \<le> scroll_attempts_without_new self \<or>
     scroll_attempts_without_new s2 = 0"
    "max_attempts_without_new s2 = max_attempts_without_new self"
    "max_tweets_per_session s2 = max_tweets_per_session self"
    using oc e by (auto simp: overlap_check_def split: if_splits)
  from ran(3) s2 have su: "streak_update s2 l2 0 = (s3, st3)" by simp
  have c2: "scroll_attempts_without_new s2 + 1 \<le> int (scroll_attempts loc)"
    using s2(4) c a(2) by auto
  have s3: "all_tweets s3 = []"
    "scroll_attempts_without_new s3 = scroll_attempts_without_new s2 + 1"
    "max_tweets_per_session s3 = max_tweets_per_session self"
    "(if scroll_attempts loc = 20 then st3 = Some ZeroExtracted else st3 = None)"
    using su s2 c2 a m by (auto simp: streak_update_def Let_def split: if_splits)
  have lim: "\<not> session_limit_reached s3 l2"
    using s3(1,3) cap by (auto simp: session_limit_reached_def truthy_int_def split: option.splits)
  have t: "s4 = s3" "st4 = None"
    using ran(4) s u s3(1)
    by (auto simp: iteration_tail_def Let_def silent_def undisturbed_def parse_no_items
        split: if_splits)
  from ran(6) s3 lim t c2 show ?thesis by (auto split: if_splits)
qed

lemma scroll_loop_undisturbed:
  assumes res: "scroll_loop r ex events self loc = (self', loc', stp)"
    and e: "all_tweets self = []" and n: "scroll_attempts loc < 20"
    and c: "scroll_attempts_without_new self \<le> int (scroll_attempts loc)"
    and s: "\<And>n. silent (events n)" and u: "\<And>n. undisturbed (events n)"
    and mx: "20 \<le> max_scroll_attempts self" and m: "20 \<le> max_attempts_without_new self"
    and cap: "\<forall>x. max_tweets_per_session self = Some x \<longrightarrow> 0 \<le> x"
  shows "stp = ZeroExtracted \<and> scroll_attempts loc' = 20"
proof (rule scroll_loop_rule[where
      I = "\<lambda>s l. all_tweets s = [] \<and> scroll_attempts l < 20 \<and>
                  scroll_attempts_without_new s \<le> int (scroll_attempts l) \<and> same_config s self"
      and Q = "\<lambda>s l x. x = ZeroExtracted \<and> scroll_attempts l = 20", OF _ _ _ res])
  show "all_tweets self = [] \<and> scroll_attempts loc < 20 \<and>
        scroll_attempts_without_new self \<le> int (scroll_attempts loc) \<and> same_config self self"
    using e n c by (simp add: same_config_refl)
next
  fix s l
  assume "all_tweets s = [] \<and> scroll_attempts l < 20 \<and>
          scroll_attempts_without_new s \<le> int (scroll_attempts l) \<and> same_config s self"
    "\<not> int (scroll_attempts l) < max_scroll_attempts s"
  with mx show "Ceiling = ZeroExtracted \<and> scroll_attempts l = 20"
    by (auto simp: same_config_def)
next
  fix s l s' l' st
  assume I: "all_tweets s = [] \<and> scroll_attempts l < 20 \<and>
          scroll_attempts_without_new s \<le> int (scroll_attempts l) \<and> same_config s self"
    and it: "scroll_iteration r ex (events (Suc (scroll_attempts l))) s
        (l\<lparr>scroll_attempts := Suc (scroll_attempts l)\<rparr>) = (s', l', st)"
  from scroll_iteration_frame[OF it] I
  have f: "scroll_attempts l' = Suc (scroll_attempts l)" "same_config s' self"
    by (auto intro: same_config_trans)
  have k: "20 \<le> max_attempts_without_new s"
    "\<forall>x. max_tweets_per_session s = Some x \<longrightarrow> 0 \<le> x"
    using I m cap by (simp_all add: same_config_def)
  from scroll_iteration_undisturbed[OF it _ s u _ _ _ k] I
  have z: "scroll_attempts_without_new s' \<le> int (Suc (scroll_attempts l)) \<and>
         (if Suc (scroll_attempts l) = 20 then st = Some ZeroExtracted else st = None)"
    by simp
  with f I show "case st of
          None \<Rightarrow> all_tweets s' = [] \<and> scroll_attempts l' < 20 \<and>
            scroll_attempts_without_new s' \<le> int (scroll_attempts l') \<and> same_config s' self
        | Some x \<Rightarrow> x = ZeroExtracted \<and> scroll_attempts l' = 20"
    using scroll_iteration_silent[OF it _ s] by (auto split: if_splits)
qed

lemma null_session:
  "session_scroll (feed (\<lambda>n. [None])) None None None (default_scraper\<lparr>max_scroll_attempts := 1\<rparr>) =
     (one_scroll\<lparr>scroll_attempts_without_new := 1\<rparr>,
      \<lparr>scroll_attempts = 1, resume_point_found = True, overlap_log = []\<rparr>, Ceiling)"
proof -
  let ?ev = "scroll_events (feed (\<lambda>n. [None]))"
  let ?s1 = "one_scroll\<lparr>scroll_attempts_without_new := 1\<rparr>"
  have start: "session_scroll (feed (\<lambda>n. [None])) None None None
      (default_scraper\<lparr>max_scroll_attempts := 1\<rparr>) =
      scroll_loop None {} ?ev one_scroll
        \<lparr>scroll_attempts = 0, resume_point_found = True, overlap_log = []\<rparr>"
    by (simp add: session_scroll_unfold prepare_scraping_session_def parse_tweets_from_timeline_def
        append_tweet_def feed_def one_scroll_def default_scraper_def truthy_str_def)
  have ev1: "?ev (Suc 0) = quiet\<lparr>arrived := [None]\<rparr>"
    by (simp add: feed_def)
  have it1: "scroll_iteration None {} (quiet\<lparr>arrived := [None]\<rparr>) one_scroll
      \<lparr>scroll_attempts = Suc 0, resume_point_found = True, overlap_log = []\<rparr> =
      (?s1, \<lparr>scroll_attempts = Suc 0, resume_point_found = True, overlap_log = []\<rparr>, None)"
    by (simp add: step_defs one_scroll_def default_scraper_def
        parse_tweets_from_timeline_def append_tweet_def)
  have lt0: "int 0 < max_scroll_attempts one_scroll"
    and ge1: "\<not> int (Suc 0) < max_scroll_attempts ?s1"
    by (simp_all add: one_scroll_def default_scraper_def)
  show ?thesis
    unfolding start
      scroll_loop_continue[where events = ?ev, OF lt0 it1 ev1]
      scroll_loop_ceiling[where events = ?ev, OF ge1]
    by simp
qed

section \<open>The claims\<close>

subsection \<open>C1: the overlap threshold\<close>

text \<open>
  C1 says that, in a resume session, the scroll loop clears the buffer and the dedup set
  once the buffer holds as many archived tweets as the overlap threshold, and that with a
  threshold of 5, ten new tweets and then archived ones the clear comes after the fifth
  archived tweet. The code does not do this. The listener never appends a tweet whose id is
  in \<^verbatim>\<open>existing_tweet_ids\<close>, so the count of the loop stays 0. In the scenario of the
  specification (archive 1 to 50, feed 60 to 51 and then 49 to 40), after both scrolls the
  buffer still holds the ten new tweets, the resume point is not confirmed and nothing was
  cleared; and with the default ceiling, whatever follows, the session ends with the resume
  point unconfirmed and no \<^verbatim>\<open>Found overlap zone!\<close> line.
\<close>

theorem overlap_clear_never_fires:
  "session_scroll (feed overlap_stream) (Some ''1'') None (Some (set archived_ids))
     (default_scraper\<lparr>max_scroll_attempts := 2\<rparr>) =
     (resuming_scraper\<lparr>all_tweets := map (\<lambda>i. tw i []) new_ids, scraped_tweet_ids := set new_ids,
        scroll_attempts_without_new := 1\<rparr>,
      \<lparr>scroll_attempts = 2, resume_point_found = False, overlap_log = []\<rparr>, Ceiling) \<and>
   resume_point_found (fst (snd (session_scroll (feed overlap_stream) (Some ''1'') None
       (Some (set archived_ids)) default_scraper))) = False \<and>
   overlap_log (fst (snd (session_scroll (feed overlap_stream) (Some ''1'') None
       (Some (set archived_ids)) default_scraper))) = []"
proof -
  obtain s l st where r: "session_scroll (feed overlap_stream) (Some ''1'') None
       (Some (set archived_ids)) default_scraper = (s, l, st)"
    by (cases "session_scroll (feed overlap_stream) (Some ''1'') None
       (Some (set archived_ids)) default_scraper") auto
  have "\<not> resume_point_found l \<and> overlap_log l = []"
    by (rule session_scroll_unconfirmed[OF r]) (simp_all add: truthy_str_def default_scraper_def)
  with r overlap_session show ?thesis by simp
qed

subsection \<open>C2: the order of the two writes\<close>

text \<open>
  C2, as stated: the archive is written before the checkpoint, so that a saved checkpoint
  never describes an archive that was not written. It fails: when the write of the archive
  fails (here the file cannot be opened), the disk ends with the checkpoint of the session
  and no archive.
\<close>

theorem checkpoint_without_archive:
  "persist (crawl_of (feed one_tweet) OpenFails) checkpoint_7 [tw ''7'' ''x''] empty_disk =
     Inr [empty_disk,
          \<lparr>checkpoint_file = Written checkpoint_7, tweets_file = Absent\<rparr>,
          \<lparr>checkpoint_file = Written checkpoint_7, tweets_file = Absent\<rparr>] \<and>
   \<not> checkpoint_backed \<lparr>checkpoint_file = Written checkpoint_7, tweets_file = Absent\<rparr>"
  by (simp add: persist_unfold crawl_of_def empty_disk_def checkpoint_backed_def sorted_7)

text \<open>
  C2, amended: when the user directory can be created, the orchestrator writes the
  checkpoint first and the archive second. The first write leaves the archive file as it
  was, the second leaves the checkpoint file as the first made it, each write keeps its own
  failure to itself, and the archive file is written with the sorted tweets, or left as it
  was when the sort raises. When both writes succeed and every sort key can be computed, the
  disk ends with the checkpoint and the archive of the same session.
\<close>

theorem checkpoint_written_before_archive:
  "save_dir_ok env \<longrightarrow>
   (\<exists>d1 d2. persist env cp all d = Inr [d, d1, d2] \<and>
      checkpoint_file d1 = write_file (checkpoint_write env) cp (checkpoint_file d) \<and>
      tweets_file d1 = tweets_file d \<and>
      checkpoint_file d2 = checkpoint_file d1 \<and>
      tweets_file d2 =
        (case sorted_tweets all of
           None \<Rightarrow> tweets_file d
         | Some ts \<Rightarrow> write_file (tweets_write env) (output_data ts (Some cp)) (tweets_file d)) \<and>
      (checkpoint_write env = WriteOk \<and> tweets_write env = WriteOk \<and> list_all key_ok all \<longrightarrow>
         checkpoint_backed d2))"
proof (cases "sorted_tweets all")
  case None
  with sorted_tweets_total[of all] have "\<not> list_all key_ok all" by blast
  with None show ?thesis by (simp add: persist_unfold)
next
  case (Some ts)
  then show ?thesis by (simp add: persist_unfold checkpoint_backed_def output_data_def)
qed

theorem checkpoint_written_before_archive_witness:
  "save_dir_ok (crawl_of (feed one_tweet) WriteOk) \<and>
   list_all key_ok [tw ''7'' ''x''] \<and>
   (\<exists>d1 d2. persist (crawl_of (feed one_tweet) WriteOk) checkpoint_7 [tw ''7'' ''x''] empty_disk =
        Inr [empty_disk, d1, d2] \<and>
      checkpoint_file d1 = Written checkpoint_7 \<and> tweets_file d1 = Absent \<and>
      tweets_file d2 = Written (output_data [tw ''7'' ''x''] (Some checkpoint_7)) \<and>
      checkpoint_backed d2)"
proof -
  have h: "save_dir_ok (crawl_of (feed one_tweet) WriteOk)"
    "checkpoint_write (crawl_of (feed one_tweet) WriteOk) = WriteOk"
    "tweets_write (crawl_of (feed one_tweet) WriteOk) = WriteOk"
    by (simp_all add: crawl_of_def)
  have k: "list_all key_ok [tw ''7'' ''x'']" by (simp add: key_ok_def key_7)
  from checkpoint_written_before_archive[of "crawl_of (feed one_tweet) WriteOk" checkpoint_7
      "[tw ''7'' ''x'']" empty_disk] h k
  show ?thesis by (auto simp: empty_disk_def sorted_7)
qed

subsection \<open>C3: the merge law\<close>

text \<open>
  C3, as stated: the list returned by the merge is sorted by numeric id, newest first.
  It is not: for one existing tweet with id 1 and one new tweet with id 2 the merge
  returns them in the order of insertion, 1 before 2.
\<close>

theorem merge_tweets_not_sorted:
  "\<not> (set (merge_tweets [tw ''1'' ''a''] [tw ''2'' ''b'']) =
        ran (spec_merge_mapping [tw ''1'' ''a''] [tw ''2'' ''b'']) \<and>
      sorted_by_id_desc (merge_tweets [tw ''1'' ''a''] [tw ''2'' ''b'']))"
  by (simp add: merge_tweets_def dict_values_def tw_def sorted_by_id_desc_def id_key_def
      py_isdigit_def py_int_def is_digit_def is_decimal_def int_max_str_digits_def key_ok_def)

text \<open>
  C3, amended: the merge returns the values of the mapping built from the existing items and
  then the new items (items without an id are skipped, an id present in both keeps the new
  item), in the order of insertion: each id stands where it is first seen in the existing
  list followed by the new list, and no id is repeated. It is \<^verbatim>\<open>save_all_tweets\<close> that
  sorts the list by numeric id, newest first; the sort returns exactly when the key of every
  item can be computed, and then it keeps the same items.
\<close>

theorem merge_tweets_mapping_law:
  "merge_tweets existing new =
     map (\<lambda>i. the (spec_merge_mapping (filter has_id existing) (filter has_id new) i))
       (first_seen (map tweet_id (filter has_id (existing @ new)))) \<and>
   set (merge_tweets existing new) =
     ran (spec_merge_mapping (filter has_id existing) (filter has_id new)) \<and>
   distinct (map tweet_id (merge_tweets existing new)) \<and>
   (sorted_tweets (merge_tweets existing new) \<noteq> None \<longleftrightarrow>
      list_all key_ok (merge_tweets existing new)) \<and>
   (list_all key_ok (merge_tweets existing new) \<longrightarrow>
      (\<exists>ts. sorted_tweets (merge_tweets existing new) = Some ts \<and> sorted_by_id_desc ts \<and>
         mset ts = mset (merge_tweets existing new)))"
proof -
  have wf: "dict_wf (merge_loop (merge_loop [] existing) new)" by (rule merge_tweets_wf)
  have d: "distinct (map tweet_id (merge_tweets existing new))"
    unfolding merge_tweets_def by (rule dict_wf_values_distinct[OF wf])
  have h: "list_all has_id (merge_tweets existing new)"
    unfolding merge_tweets_def by (rule dict_wf_values_has_id[OF wf])
  have s: "sorted_tweets (merge_tweets existing new) = sorted_reverse (merge_tweets existing new)"
    by (rule sorted_tweets_of_archive[OF h d])
  have t: "sorted_tweets (merge_tweets existing new) \<noteq> None \<longleftrightarrow>
      list_all key_ok (merge_tweets existing new)"
    unfolding s by (simp add: sorted_reverse_def)
  have u: "\<exists>ts. sorted_tweets (merge_tweets existing new) = Some ts \<and> sorted_by_id_desc ts \<and>
         mset ts = mset (merge_tweets existing new)"
    if "list_all key_ok (merge_tweets existing new)"
  proof -
    from that t obtain ts where ts: "sorted_tweets (merge_tweets existing new) = Some ts" by blast
    with s have r: "sorted_reverse (merge_tweets existing new) = Some ts" by simp
    from sorted_reverse_sorted[OF r] sorted_reverse_mset[OF r] ts show ?thesis by simp
  qed
  from merge_tweets_in_order[of existing new] merge_tweets_ran[of existing new] d t u
  show ?thesis by blast
qed

theorem merge_tweets_mapping_law_witness:
  "merge_tweets [tw ''100'' ''a'', tw ''205'' ''b''] [tw ''17'' ''c'', tw ''100'' ''d''] =
     [tw ''100'' ''d'', tw ''205'' ''b'', tw ''17'' ''c''] \<and>
   list_all key_ok [tw ''100'' ''d'', tw ''205'' ''b'', tw ''17'' ''c''] \<and>
   (\<exists>ts. sorted_tweets [tw ''100'' ''d'', tw ''205'' ''b'', tw ''17'' ''c''] = Some ts \<and>
      sorted_by_id_desc ts \<and>
      mset ts = mset [tw ''100'' ''d'', tw ''205'' ''b'', tw ''17'' ''c''])"
proof -
  have m: "merge_tweets [tw ''100'' ''a'', tw ''205'' ''b''] [tw ''17'' ''c'', tw ''100'' ''d''] =
     [tw ''100'' ''d'', tw ''205'' ''b'', tw ''17'' ''c'']"
    by (simp add: merge_tweets_def dict_values_def dict_contains_def dict_keys_def
        tw_def)
  have k: "list_all key_ok [tw ''100'' ''d'', tw ''205'' ''b'', tw ''17'' ''c'']"
    by (simp add: key_ok_def id_key_def py_isdigit_def py_int_def is_digit_def is_decimal_def
        int_max_str_digits_def tw_def)
  from merge_tweets_mapping_law[of "[tw ''100'' ''a'', tw ''205'' ''b'']"
      "[tw ''17'' ''c'', tw ''100'' ''d'']"]
  have "list_all key_ok [tw ''100'' ''d'', tw ''205'' ''b'', tw ''17'' ''c''] \<longrightarrow>
     (\<exists>ts. sorted_tweets [tw ''100'' ''d'', tw ''205'' ''b'', tw ''17'' ''c''] = Some ts \<and>
        sorted_by_id_desc ts \<and>
        mset ts = mset [tw ''100'' ''d'', tw ''205'' ''b'', tw ''17'' ''c''])"
    unfolding m by blast
  with k m show ?thesis by blast
qed

subsection \<open>C4: the ids of a resume session\<close>

text \<open>
  C4, as stated: every tweet collected after the resume point was confirmed has a numeric id
  below the oldest id of the archive. It fails: the loop compares no ids. With an overlap
  threshold of 0 and the archive ids 10 and 20, the resume point is confirmed in the first
  scroll, and the tweet with id 30 that arrives in the second scroll is collected.
\<close>

theorem resume_items_not_below_oldest:
  "resume_point_found (fst (snd (session_scroll (feed late_item) (Some ''10'') None
       (Some {''10'', ''20''}) (default_scraper\<lparr>overlap_threshold := 0, max_scroll_attempts := 2\<rparr>)))) \<and>
   all_tweets (fst (session_scroll (feed late_item) (Some ''10'') None
       (Some {''10'', ''20''}) (default_scraper\<lparr>overlap_threshold := 0, max_scroll_attempts := 2\<rparr>))) =
     [tw ''30'' []] \<and>
   id_key (tw ''30'' []) = Some 30 \<and> id_key (tw ''10'' []) = Some 10 \<and> \<not> (30::int) < 10"
  by (simp add: eager_session)
     (simp add: id_key_def py_isdigit_def py_int_def is_digit_def is_decimal_def
        int_max_str_digits_def tw_def)

text \<open>
  C4, amended: every tweet that a session returns has an id that is not in the set of
  existing ids it was given, and no two of them share an id.
\<close>

theorem session_items_outside_existing:
  "set (map tweet_id (all_tweets (fst (session_scroll env r m (Some ex) self)))) \<inter> ex = {} \<and>
   distinct (map tweet_id (all_tweets (fst (session_scroll env r m (Some ex) self))))"
proof -
  obtain s l st where x: "session_scroll env r m (Some ex) self = (s, l, st)"
    by (cases "session_scroll env r m (Some ex) self") auto
  have "fresh_ids s" "existing_tweet_ids s = Some ex" "buffer_invariant s"
    using session_scroll_fresh[OF x] session_scroll_config[OF x] session_scroll_invariant[OF x]
    by simp_all
  then show ?thesis by (simp add: x fresh_ids_def buffer_invariant_def)
qed

subsection \<open>C5: the merge is idempotent\<close>

text \<open>
  C5: merging the result of a merge again changes nothing, and merging an empty list of
  new tweets gives the archive made of the existing list alone; that archive is the
  existing list itself when its items have distinct, non-empty ids.
\<close>

theorem merge_tweets_idempotent:
  "merge_tweets A (merge_tweets A B) = merge_tweets A B \<and>
   merge_tweets A [] = dict_values (merge_loop [] A) \<and>
   (list_all has_id A \<and> distinct (map tweet_id A) \<longrightarrow> merge_tweets A [] = A)"
proof -
  have "dict_wf (merge_loop [] A)" by (rule merge_loop_wf) (rule dict_wf_empty)
  from merge_loop_reinsert[OF this refl, of B]
  have 1: "merge_tweets A (merge_tweets A B) = merge_tweets A B"
    by (simp add: merge_tweets_def dict_values_def)
  have 2: "merge_tweets A [] = dict_values (merge_loop [] A)"
    by (simp add: merge_tweets_def)
  have 3: "merge_tweets A [] = A" if "list_all has_id A" "distinct (map tweet_id A)"
    using merge_loop_id[OF that] by (simp add: 2 dict_values_def comp_def)
  from 1 2 3 show ?thesis by blast
qed

theorem merge_tweets_idempotent_witness:
  "list_all has_id [tw ''2'' ''a'', tw ''1'' ''b''] \<and>
   distinct (map tweet_id [tw ''2'' ''a'', tw ''1'' ''b'']) \<and>
   merge_tweets [tw ''2'' ''a'', tw ''1'' ''b'']
     (merge_tweets [tw ''2'' ''a'', tw ''1'' ''b''] [tw ''3'' ''c'', tw ''2'' ''d'']) =
   merge_tweets [tw ''2'' ''a'', tw ''1'' ''b''] [tw ''3'' ''c'', tw ''2'' ''d''] \<and>
   merge_tweets [tw ''2'' ''a'', tw ''1'' ''b''] [] = [tw ''2'' ''a'', tw ''1'' ''b'']"
proof -
  have h: "list_all has_id [tw ''2'' ''a'', tw ''1'' ''b''] \<and>
      distinct (map tweet_id [tw ''2'' ''a'', tw ''1'' ''b''])"
    by (simp add: has_id_def tw_def)
  from merge_tweets_idempotent[of "[tw ''2'' ''a'', tw ''1'' ''b'']"
      "[tw ''3'' ''c'', tw ''2'' ''d'']"] h
  show ?thesis by blast
qed

subsection \<open>C6: the session limit\<close>

text \<open>
  C6, as stated: with a limit of ten tweets the loop returns exactly ten tweets. It fails:
  the limit is tested once per iteration, after the appends. A fresh session that gets
  twelve tweets in its first scroll stops on the limit with twelve tweets.
\<close>

theorem session_limit_exceeded:
  "snd (snd (session_scroll (feed burst) None (Some 10) None default_scraper)) = SessionLimit \<and>
   length (all_tweets (fst (session_scroll (feed burst) None (Some 10) None default_scraper))) = 12"
  by (simp add: burst_session twelve_ids_def)

text \<open>
  C6, amended: when the loop stops on the session limit, the resume point is confirmed, a
  non-zero limit is set and the buffer holds at least that many tweets. And an iteration
  after which the loop goes on, with the resume point confirmed, a non-zero limit set and no
  tweet arriving after the test of the limit, leaves fewer tweets than the limit in the
  buffer.
\<close>

theorem session_limit_stop:
  "(snd (snd (session_scroll env r m ex self)) = SessionLimit \<longrightarrow>
      resume_point_found (fst (snd (session_scroll env r m ex self))) \<and> m \<noteq> None \<and> m \<noteq> Some 0 \<and>
      the m \<le> int (length (all_tweets (fst (session_scroll env r m ex self))))) \<and>
   (scroll_iteration r existing ev s loc = (s', loc', None) \<and>
      no_items (arrived_late ev) \<and> no_items (arrived_refresh ev) \<and>
      resume_point_found loc' \<and> max_tweets_per_session s' = Some cap \<and> cap \<noteq> 0 \<longrightarrow>
      int (length (all_tweets s')) < cap)"
proof -
  obtain s1 l1 st where x: "session_scroll env r m ex self = (s1, l1, st)"
    by (cases "session_scroll env r m ex self") auto
  have 1: "resume_point_found l1 \<and> m \<noteq> None \<and> m \<noteq> Some 0 \<and> the m \<le> int (length (all_tweets s1))"
    if "st = SessionLimit"
  proof -
    have "session_limit_reached s1 l1"
      using scroll_loop_session_limit x that unfolding session_scroll_unfold by blast
    moreover have "max_tweets_per_session s1 = m" using session_scroll_config[OF x] by simp
    ultimately show ?thesis
      by (auto simp: session_limit_reached_def truthy_int_def split: option.splits)
  qed
  have 2: "int (length (all_tweets s')) < cap"
    if "scroll_iteration r existing ev s loc = (s', loc', None)"
      "no_items (arrived_late ev)" "no_items (arrived_refresh ev)"
      "resume_point_found loc'" "max_tweets_per_session s' = Some cap" "cap \<noteq> 0"
    using scroll_iteration_continues_below_limit[OF that(1,2,3)] that(4,5,6)
    by (simp add: session_limit_reached_def truthy_int_def)
  from 1 2 show ?thesis by (simp add: x)
qed

theorem session_limit_stop_witness:
  "snd (snd (session_scroll (feed burst) None (Some 10) None default_scraper)) = SessionLimit \<and>
   resume_point_found (fst (snd (session_scroll (feed burst) None (Some 10) None default_scraper))) \<and>
   (10::int) \<le> int (length (all_tweets (fst (session_scroll (feed burst) None (Some 10) None
       default_scraper)))) \<and>
   scroll_iteration None {} (quiet\<lparr>arrived := [Some (tw ''7'' ''x'')]\<rparr>) capped_scraper
      \<lparr>scroll_attempts = Suc 0, resume_point_found = True, overlap_log = []\<rparr> =
     (capped_scraper\<lparr>all_tweets := [tw ''7'' ''x''], scraped_tweet_ids := {''7''}\<rparr>,
      \<lparr>scroll_attempts = Suc 0, resume_point_found = True, overlap_log = []\<rparr>, None) \<and>
   int (length (all_tweets
      (capped_scraper\<lparr>all_tweets := [tw ''7'' ''x''], scraped_tweet_ids := {''7''}\<rparr>))) < 10"
proof -
  have h: "snd (snd (session_scroll (feed burst) None (Some 10) None default_scraper)) = SessionLimit"
    by (simp add: burst_session)
  have q: "no_items (arrived_late (quiet\<lparr>arrived := [Some (tw ''7'' ''x'')]\<rparr>))"
    "no_items (arrived_refresh (quiet\<lparr>arrived := [Some (tw ''7'' ''x'')]\<rparr>))"
    "max_tweets_per_session
       (capped_scraper\<lparr>all_tweets := [tw ''7'' ''x''], scraped_tweet_ids := {''7''}\<rparr>) = Some 10"
    by (simp_all add: no_items_def quiet_def capped_scraper_def)
  from session_limit_stop[where env = "feed burst" and r = None and m = "Some 10" and ex = None
      and self = default_scraper and existing = "{}"
      and ev = "quiet\<lparr>arrived := [Some (tw ''7'' ''x'')]\<rparr>" and s = capped_scraper
      and loc = "\<lparr>scroll_attempts = Suc 0, resume_point_found = True, overlap_log = []\<rparr>"
      and s' = "capped_scraper\<lparr>all_tweets := [tw ''7'' ''x''], scraped_tweet_ids := {''7''}\<rparr>"
      and loc' = "\<lparr>scroll_attempts = Suc 0, resume_point_found = True, overlap_log = []\<rparr>"
      and cap = 10] h q capped_iteration
  show ?thesis by simp
qed

subsection \<open>C7: no id twice in the archive\<close>

text \<open>
  C7: if the ids of the archive on disk are distinct before a session, they are distinct
  after it, whatever the session does; the merge returns a list without a repeated id, and
  so does the sort of \<^verbatim>\<open>save_all_tweets\<close> whenever it returns.
\<close>

theorem archive_has_distinct_ids:
  "(archive_ids_distinct d \<longrightarrow>
      archive_ids_distinct (snd (xscraper_scrape_user_tweets env resume m self d))) \<and>
   distinct (map tweet_id (merge_tweets existing new)) \<and>
   (\<forall>ts. sorted_tweets all = Some ts \<longrightarrow> distinct (map tweet_id ts))"
proof -
  have "archive_ids_distinct (snd (xscraper_scrape_user_tweets env resume m self d))"
    if "archive_ids_distinct d"
    using xscraper_disk[of env resume m self d] persist_distinct that by auto
  moreover have "distinct (map tweet_id (merge_tweets existing new))"
    unfolding merge_tweets_def by (rule dict_wf_values_distinct[OF merge_tweets_wf])
  ultimately show ?thesis using sorted_tweets_distinct by blast
qed

theorem archive_has_distinct_ids_witness:
  "archive_ids_distinct empty_disk \<and>
   archive_ids_distinct (snd (xscraper_scrape_user_tweets (crawl_of (feed one_tweet) WriteOk)
      False None (default_scraper\<lparr>max_scroll_attempts := 1\<rparr>) empty_disk)) \<and>
   sorted_tweets [tw ''7'' ''x'', tw ''7'' ''y''] = Some [tw ''7'' ''x''] \<and>
   distinct (map tweet_id [tw ''7'' ''x''])"
proof -
  have h: "archive_ids_distinct empty_disk"
    by (simp add: archive_ids_distinct_def empty_disk_def)
  have s: "sorted_tweets [tw ''7'' ''x'', tw ''7'' ''y''] = Some [tw ''7'' ''x'']"
    by (simp add: sorted_tweets_def sorted_reverse_def dict_contains_def dict_keys_def
        dict_values_def key_ok_def key_7)
       (simp add: tw_def)
  from archive_has_distinct_ids[of empty_disk "crawl_of (feed one_tweet) WriteOk" False None
      "default_scraper\<lparr>max_scroll_attempts := 1\<rparr>" "[]" "[]" "[tw ''7'' ''x'', tw ''7'' ''y'']"] h s
  show ?thesis by blast
qed

subsection \<open>C8: the abort without progress\<close>

text \<open>
  C8, as stated: when no tweet is ever extracted, the loop aborts once the fixed minimum of
  attempts is reached and never runs on to the configured ceiling. It fails when the ceiling
  is below that minimum: with a ceiling of one attempt (the configuration accepts it) and a
  feed that never yields a tweet, the loop makes its one attempt and ends at the ceiling,
  without the abort.
\<close>

theorem zero_progress_low_ceiling:
  "snd (snd (session_scroll (feed (\<lambda>n. [None])) None None None
       (default_scraper\<lparr>max_scroll_attempts := 1\<rparr>))) = Ceiling \<and>
   scroll_attempts (fst (snd (session_scroll (feed (\<lambda>n. [None])) None None None
       (default_scraper\<lparr>max_scroll_attempts := 1\<rparr>)))) = 1"
  by (simp add: null_session)

text \<open>
  C8, amended: when no tweet is ever extracted, the buffer stays empty and the loop makes at
  most 20 attempts. The zero-tweets abort happens at the twentieth attempt and at no other;
  a loop that is left at the twentieth attempt is left by that abort (or by an exception of
  the scroll call); and the loop ends at its ceiling only when the ceiling is below 20.
  When moreover no scroll call raises, the page never reports its bottom, the session stays
  under its time limit, the ceiling and the limit of attempts without a new tweet are at
  least 20 and the session limit is not negative, the loop makes exactly 20 attempts and
  ends with the zero-tweets abort.
\<close>

theorem zero_progress_abort:
  assumes "no_items (arrived_on_load env)" and "\<And>n. silent (scroll_events env n)"
  shows "all_tweets (fst (session_scroll env r m ex self)) = [] \<and>
         scroll_attempts (fst (snd (session_scroll env r m ex self))) \<le> 20 \<and>
         (snd (snd (session_scroll env r m ex self)) = ZeroExtracted \<longrightarrow>
            scroll_attempts (fst (snd (session_scroll env r m ex self))) = 20) \<and>
         (scroll_attempts (fst (snd (session_scroll env r m ex self))) = 20 \<longrightarrow>
            snd (snd (session_scroll env r m ex self)) = ZeroExtracted \<or>
            (\<exists>e. snd (snd (session_scroll env r m ex self)) = Raised e)) \<and>
         (snd (snd (session_scroll env r m ex self)) = Ceiling \<longrightarrow> max_scroll_attempts self < 20) \<and>
         ((\<forall>n. undisturbed (scroll_events env n)) \<and> 20 \<le> max_scroll_attempts self \<and>
          20 \<le> max_attempts_without_new self \<and> (\<forall>x. m = Some x \<longrightarrow> 0 \<le> x) \<longrightarrow>
            snd (snd (session_scroll env r m ex self)) = ZeroExtracted \<and>
            scroll_attempts (fst (snd (session_scroll env r m ex self))) = 20)"
proof -
  let ?s0 = "(parse_tweets_from_timeline (prepare_scraping_session m ex self) (arrived_on_load env))
          \<lparr>scroll_attempts_without_new := 0\<rparr>"
  obtain s l st where x: "scroll_loop r (case ex of None \<Rightarrow> {} | Some e \<Rightarrow> e) (scroll_events env) ?s0
       \<lparr>scroll_attempts = 0, resume_point_found = \<not> truthy_str r, overlap_log = []\<rparr> = (s, l, st)"
    by (cases "scroll_loop r (case ex of None \<Rightarrow> {} | Some e \<Rightarrow> e) (scroll_events env) ?s0
       \<lparr>scroll_attempts = 0, resume_point_found = \<not> truthy_str r, overlap_log = []\<rparr>") auto
  have e: "all_tweets ?s0 = []"
    using assms(1) by (simp add: parse_no_items prepare_scraping_session_def)
  have c: "max_scroll_attempts ?s0 = max_scroll_attempts self"
    "max_tweets_per_session ?s0 = m"
    "max_attempts_without_new ?s0 = max_attempts_without_new self"
    using session_start_config[of m ex self "arrived_on_load env"]
    by (simp_all add: parse_tweets_frame prepare_scraping_session_def)
  have 1: "all_tweets s = [] \<and> scroll_attempts l \<le> 20 \<and>
         (st = ZeroExtracted \<longrightarrow> scroll_attempts l = 20) \<and>
         (scroll_attempts l = 20 \<longrightarrow> st = ZeroExtracted \<or> (\<exists>e. st = Raised e)) \<and>
         (st = Ceiling \<longrightarrow> max_scroll_attempts self < 20)"
    using scroll_loop_zero_progress[OF x e _ assms(2)] c by simp
  have 2: "st = ZeroExtracted \<and> scroll_attempts l = 20"
    if "\<forall>n. undisturbed (scroll_events env n)" "20 \<le> max_scroll_attempts self"
      "20 \<le> max_attempts_without_new self" "\<forall>x. m = Some x \<longrightarrow> 0 \<le> x"
    using scroll_loop_undisturbed[OF x e _ _ assms(2)] that c by simp
  from 1 2 show ?thesis unfolding session_scroll_unfold x by simp
qed

theorem zero_progress_abort_witness:
  "no_items (arrived_on_load (feed (\<lambda>n. [None]))) \<and>
   (\<forall>n. silent (scroll_events (feed (\<lambda>n. [None])) n)) \<and>
   (\<forall>n. undisturbed (scroll_events (feed (\<lambda>n. [None])) n)) \<and>
   (20::int) \<le> max_scroll_attempts default_scraper \<and>
   (20::int) \<le> max_attempts_without_new default_scraper \<and>
   all_tweets (fst (session_scroll (feed (\<lambda>n. [None])) None None None default_scraper)) = [] \<and>
   snd (snd (session_scroll (feed (\<lambda>n. [None])) None None None default_scraper)) = ZeroExtracted \<and>
   scroll_attempts (fst (snd (session_scroll (feed (\<lambda>n. [None])) None None None default_scraper)))
     = 20"
proof -
  have h1: "no_items (arrived_on_load (feed (\<lambda>n. [None])))"
    by (simp add: no_items_def feed_def)
  have h2: "silent (scroll_events (feed (\<lambda>n. [None])) n)" for n
    by (simp add: silent_def no_items_def feed_def quiet_def)
  have h3: "\<forall>n. undisturbed (scroll_events (feed (\<lambda>n. [None])) n)"
    by (simp add: undisturbed_def feed_def quiet_def)
  have h4: "(20::int) \<le> max_scroll_attempts default_scraper"
    "(20::int) \<le> max_attempts_without_new default_scraper"
    by (simp_all add: default_scraper_def)
  from zero_progress_abort[OF h1 h2, of None None None default_scraper] h1 h2 h3 h4
  show ?thesis by simp
qed

subsection \<open>C9: partial results\<close>

text \<open>
  C9, as stated: after a failed write of the checkpoint or of the archive the caller gets the
  collected tweets together with an error marker. It fails: the two save methods log the
  failure and return, and the caller gets the ordinary result. Here the archive file cannot
  be opened; the result carries the tweet and no error.
\<close>

theorem write_failure_without_error_marker:
  "xscraper_scrape_user_tweets (crawl_of (feed one_tweet) OpenFails) False None
     (default_scraper\<lparr>max_scroll_attempts := 1\<rparr>) empty_disk =
   (Returns 1 [tw ''7'' ''x''],
    \<lparr>checkpoint_file = Written checkpoint_7, tweets_file = Absent\<rparr>)"
  by (simp add: one_tweet_crawl)

text \<open>
  C9, amended: when the scroll call raises in the middle of a session, the caller gets the
  error dictionary of the scraper, with the error and every tweet the buffer holds at that
  moment. When the scroll loop ends without an exception and the user directory can be
  created, the caller gets, whatever the outcome of the write of the checkpoint and of the
  write of the archive, the ordinary result without an error marker: the count of the merged
  tweets and those of them that pass the filters, every tweet of the buffer being among the
  merged tweets. The one exception is a merged tweet whose sort key cannot be computed:
  then the \<^verbatim>\<open>ValueError\<close> of the sort reaches the caller and nothing is returned.
\<close>

theorem partial_results_returned:
  "(page_initialized (browser env) \<and> goto_error (browser env) = None \<and>
    \<not> account_missing (browser env) \<and> login_ok env \<and> (resume \<longrightarrow> load_dir_ok env) \<and>
    resume_plan resume d = (cp, old, rid, ids) \<and>
    session_scroll (browser env) rid (effective_limit env m) (Some ids) self = (s, l, Raised e) \<longrightarrow>
      xscraper_scrape_user_tweets env resume m self d =
        (ReturnsError \<lparr>error = Some e, result_tweets = all_tweets s\<rparr>, d)) \<and>
   (page_initialized (browser env) \<and> goto_error (browser env) = None \<and>
    \<not> account_missing (browser env) \<and> login_ok env \<and> (resume \<longrightarrow> load_dir_ok env) \<and>
    save_dir_ok env \<and>
    resume_plan resume d = (cp, old, rid, ids) \<and>
    session_scroll (browser env) rid (effective_limit env m) (Some ids) self = (s', l', st) \<and>
    (\<forall>x. st \<noteq> Raised x) \<and>
    all = (if old \<noteq> [] then merge_tweets old (all_tweets s') else all_tweets s') \<longrightarrow>
      fst (xscraper_scrape_user_tweets (env\<lparr>checkpoint_write := w1, tweets_write := w2\<rparr>)
             resume m self d) =
        (if list_all key_ok all then Returns (length all) (apply_filters (filters env) all)
         else Raises ''ValueError'') \<and>
      set (all_tweets s') \<subseteq> set all)"
proof -
  have 1: "xscraper_scrape_user_tweets env resume m self d =
        (ReturnsError \<lparr>error = Some e, result_tweets = all_tweets s\<rparr>, d)"
    if "page_initialized (browser env)" "goto_error (browser env) = None"
      "\<not> account_missing (browser env)" "login_ok env" "resume \<longrightarrow> load_dir_ok env"
      "resume_plan resume d = (cp, old, rid, ids)"
      "session_scroll (browser env) rid (effective_limit env m) (Some ids) self = (s, l, Raised e)"
  proof -
    have "pw_scrape_user_tweets (browser env) rid (effective_limit env m) (Some ids) self =
        Inr (\<lparr>error = Some e, result_tweets = all_tweets s\<rparr>, s)"
      using pw_scrape_result[OF that(1,2,3), of rid "effective_limit env m" "Some ids" self] that(7)
      by simp
    from xscraper_error_returned[OF that(4,5,6) this] show ?thesis by simp
  qed
  have 2: "fst (xscraper_scrape_user_tweets (env\<lparr>checkpoint_write := w1, tweets_write := w2\<rparr>)
             resume m self d) =
        (if list_all key_ok all then Returns (length all) (apply_filters (filters env) all)
         else Raises ''ValueError'') \<and>
      set (all_tweets s') \<subseteq> set all"
    if "page_initialized (browser env)" "goto_error (browser env) = None"
      "\<not> account_missing (browser env)" "login_ok env" "resume \<longrightarrow> load_dir_ok env"
      "save_dir_ok env"
      "resume_plan resume d = (cp, old, rid, ids)"
      "session_scroll (browser env) rid (effective_limit env m) (Some ids) self = (s', l', st)"
      "\<forall>x. st \<noteq> Raised x"
      "all = (if old \<noteq> [] then merge_tweets old (all_tweets s') else all_tweets s')"
  proof -
    note p = that
    let ?env = "env\<lparr>checkpoint_write := w1, tweets_write := w2\<rparr>"
    let ?res = "\<lparr>error = None, result_tweets = all_tweets s'\<rparr>"
    have lim: "effective_limit ?env m = effective_limit env m"
      by (cases m) (simp_all add: effective_limit_def)
    have er: "(case st of Raised e \<Rightarrow> Some e | _ \<Rightarrow> None) = None"
      using p(9) by (cases st) simp_all
    have pw: "pw_scrape_user_tweets (browser ?env) rid (effective_limit ?env m) (Some ids) self =
        Inr (?res, s')"
      using pw_scrape_result[OF p(1,2,3), of rid "effective_limit env m" "Some ids" self]
        p(8) er
      by (simp add: lim)
    have a: "all = (if old \<noteq> [] then merge_tweets old (result_tweets ?res)
                    else result_tweets ?res)"
      using p(10) by simp
    have x: "xscraper_scrape_user_tweets ?env resume m self d =
       (if all \<noteq> [] then
          (case checkpoint_data cp all (result_tweets ?res) of
             None \<Rightarrow> (Raises ''ValueError'', d)
           | Some c \<Rightarrow>
               (case persist ?env c all d of
                  Inl e \<Rightarrow> (Raises e, d)
                | Inr ds \<Rightarrow> (Returns (length all) (apply_filters (filters ?env) all), last ds)))
        else (Returns (length all) (apply_filters (filters ?env) all), d))"
      by (rule xscraper_after_scrape[OF _ _ p(7) pw _ a]) (simp_all add: p(4,5))
    have sd: "save_dir_ok ?env" using p(6) by simp
    have r: "fst (xscraper_scrape_user_tweets ?env resume m self d) =
        (if list_all key_ok all then Returns (length all) (apply_filters (filters env) all)
         else Raises ''ValueError'')"
    proof (cases "list_all key_ok all")
      case True
      then obtain c where c: "checkpoint_data cp all (all_tweets s') = Some c"
        using checkpoint_data_total[of cp all "all_tweets s'"] by auto
      show ?thesis unfolding x by (simp add: True c persist_unfold[OF sd])
    next
      case False
      then have n: "checkpoint_data cp all (all_tweets s') = None"
        using checkpoint_data_total[of cp all "all_tweets s'"] by simp
      from False have "all \<noteq> []" by auto
      then show ?thesis unfolding x by (simp add: False n)
    qed
    have i: "list_all has_id (all_tweets s')"
      using session_scroll_ids[OF p(8)] by (simp add: ids_present_def)
    have di: "distinct (map tweet_id (all_tweets s'))"
      using session_scroll_invariant[OF p(8)] by (simp add: buffer_invariant_def)
    have "set (all_tweets s') \<subseteq> set all"
      unfolding p(10) using merge_tweets_keeps_new[OF di i, of old] by simp
    with r show ?thesis by simp
  qed
  from 1 2 show ?thesis by blast
qed

theorem partial_results_returned_witness:
  "xscraper_scrape_user_tweets (crawl_of failing_scroll WriteOk) False None default_scraper
     empty_disk =
     (ReturnsError \<lparr>error = Some ''boom'', result_tweets = [tw ''7'' ''x'']\<rparr>, empty_disk) \<and>
   save_dir_ok (crawl_of (feed one_tweet) WriteOk) \<and>
   snd (snd (session_scroll (feed one_tweet) None None (Some {})
      (default_scraper\<lparr>max_scroll_attempts := 1\<rparr>))) = Ceiling \<and>
   all_tweets (fst (session_scroll (feed one_tweet) None None (Some {})
      (default_scraper\<lparr>max_scroll_attempts := 1\<rparr>))) = [tw ''7'' ''x''] \<and>
   list_all key_ok [tw ''7'' ''x''] \<and>
   fst (xscraper_scrape_user_tweets
          ((crawl_of (feed one_tweet) WriteOk)\<lparr>checkpoint_write := DumpFails, tweets_write := OpenFails\<rparr>)
          False None (default_scraper\<lparr>max_scroll_attempts := 1\<rparr>) empty_disk) =
     Returns 1 [tw ''7'' ''x'']"
proof -
  have a: "page_initialized (browser (crawl_of failing_scroll WriteOk))"
    "goto_error (browser (crawl_of failing_scroll WriteOk)) = None"
    "\<not> account_missing (browser (crawl_of failing_scroll WriteOk))"
    "login_ok (crawl_of failing_scroll WriteOk)"
    "False \<longrightarrow> load_dir_ok (crawl_of failing_scroll WriteOk)"
    "resume_plan False empty_disk = (None, [], None, {})"
    by (simp_all add: crawl_of_def failing_scroll_def feed_def resume_plan_def)
  have b: "session_scroll (browser (crawl_of failing_scroll WriteOk)) None
      (effective_limit (crawl_of failing_scroll WriteOk) None) (Some {}) default_scraper =
     (fresh_scraper\<lparr>all_tweets := [tw ''7'' ''x''], scraped_tweet_ids := {''7''}\<rparr>,
      \<lparr>scroll_attempts = 2, resume_point_found = True, overlap_log = []\<rparr>, Raised ''boom'')"
    using failing_session by (simp add: crawl_of_def effective_limit_def)
  from partial_results_returned[where env = "crawl_of failing_scroll WriteOk" and resume = False
      and d = empty_disk and cp = None and old = "[]" and rid = None and ids = "{}" and m = None
      and self = default_scraper and e = "''boom''"
      and s = "fresh_scraper\<lparr>all_tweets := [tw ''7'' ''x''], scraped_tweet_ids := {''7''}\<rparr>"
      and l = "\<lparr>scroll_attempts = 2, resume_point_found = True, overlap_log = []\<rparr>"] a b
  have 1: "xscraper_scrape_user_tweets (crawl_of failing_scroll WriteOk) False None default_scraper
     empty_disk =
     (ReturnsError \<lparr>error = Some ''boom'', result_tweets = [tw ''7'' ''x'']\<rparr>, empty_disk)"
    by (simp add: fresh_scraper_def)
  have c: "page_initialized (browser (crawl_of (feed one_tweet) WriteOk))"
    "goto_error (browser (crawl_of (feed one_tweet) WriteOk)) = None"
    "\<not> account_missing (browser (crawl_of (feed one_tweet) WriteOk))"
    "login_ok (crawl_of (feed one_tweet) WriteOk)"
    "False \<longrightarrow> load_dir_ok (crawl_of (feed one_tweet) WriteOk)"
    "save_dir_ok (crawl_of (feed one_tweet) WriteOk)"
    by (simp_all add: crawl_of_def feed_def)
  have s: "session_scroll (browser (crawl_of (feed one_tweet) WriteOk)) None
      (effective_limit (crawl_of (feed one_tweet) WriteOk) None) (Some {})
      (default_scraper\<lparr>max_scroll_attempts := 1\<rparr>) =
     (one_scroll\<lparr>all_tweets := [tw ''7'' ''x''], scraped_tweet_ids := {''7''}\<rparr>,
      \<lparr>scroll_attempts = 1, resume_point_found = True, overlap_log = []\<rparr>, Ceiling)"
    using one_tweet_session by (simp add: crawl_of_def effective_limit_def)
  have k: "list_all key_ok [tw ''7'' ''x'']" by (simp add: key_ok_def key_7)
  have f: "apply_filters (filters (crawl_of (feed one_tweet) WriteOk)) [tw ''7'' ''x''] =
      [tw ''7'' ''x'']"
    by (simp add: crawl_of_def apply_filters_def passes_filters_def pass_all_def
        language_allowed_def tw_def)
  from partial_results_returned[where env = "crawl_of (feed one_tweet) WriteOk"
      and resume = False and d = empty_disk and m = None
      and cp = None and old = "[]" and rid = None and ids = "{}"
      and self = "default_scraper\<lparr>max_scroll_attempts := 1\<rparr>"
      and s' = "one_scroll\<lparr>all_tweets := [tw ''7'' ''x''], scraped_tweet_ids := {''7''}\<rparr>"
      and l' = "\<lparr>scroll_attempts = 1, resume_point_found = True, overlap_log = []\<rparr>"
      and st = Ceiling and all = "[tw ''7'' ''x'']"
      and ?w1.0 = DumpFails and ?w2.0 = OpenFails] c a(6) s k f
  have 2: "fst (xscraper_scrape_user_tweets
          ((crawl_of (feed one_tweet) WriteOk)\<lparr>checkpoint_write := DumpFails, tweets_write := OpenFails\<rparr>)
          False None (default_scraper\<lparr>max_scroll_attempts := 1\<rparr>) empty_disk) =
     Returns 1 [tw ''7'' ''x'']"
    by simp
  have 3: "snd (snd (session_scroll (feed one_tweet) None None (Some {})
      (default_scraper\<lparr>max_scroll_attempts := 1\<rparr>))) = Ceiling"
    "all_tweets (fst (session_scroll (feed one_tweet) None None (Some {})
      (default_scraper\<lparr>max_scroll_attempts := 1\<rparr>))) = [tw ''7'' ''x'']"
    using one_tweet_session by simp_all
  from 1 2 3 c(6) k show ?thesis by blast
qed

subsection \<open>C10: the buffer and the session dedup set\<close>

text \<open>
  C10: the session dedup set is the set of the ids of the buffer, and the buffer holds no id
  twice. The reset at the start of a session establishes this, every append of the listener
  and the clear of the overlap block keep it, and it holds when the scroll loop of a session
  ends, at whatever ceiling.
\<close>

theorem buffer_and_dedup_set_agree:
  "buffer_invariant (prepare_scraping_session m ex self0) \<and>
   (buffer_invariant self \<longrightarrow> buffer_invariant (append_tweet self p)) \<and>
   (buffer_invariant self \<longrightarrow> buffer_invariant (fst (overlap_check r existing self loc n))) \<and>
   buffer_invariant (fst (session_scroll env r m ex self0))"
proof -
  have 3: "buffer_invariant (fst (overlap_check r existing self loc n))" if "buffer_invariant self"
    using overlap_check_invariant[OF _ that, of r existing loc n]
    by (cases "overlap_check r existing self loc n") auto
  have 4: "buffer_invariant (fst (session_scroll env r m ex self0))"
    using session_scroll_invariant[of env r m ex self0]
    by (cases "session_scroll env r m ex self0") auto
  from prepare_invariant append_tweet_invariant 3 4 show ?thesis by blast
qed

theorem buffer_and_dedup_set_agree_witness:
  "buffer_invariant default_scraper \<and>
   buffer_invariant (append_tweet default_scraper (Some (tw ''7'' ''x''))) \<and>
   all_tweets (append_tweet default_scraper (Some (tw ''7'' ''x''))) = [tw ''7'' ''x''] \<and>
   scraped_tweet_ids (append_tweet default_scraper (Some (tw ''7'' ''x''))) = {''7''}"
proof -
  have h: "buffer_invariant default_scraper"
    by (simp add: buffer_invariant_def default_scraper_def)
  from buffer_and_dedup_set_agree[of None None default_scraper default_scraper
      "Some (tw ''7'' ''x'')" None "{}" "\<lparr>scroll_attempts = 0, resume_point_found = True, overlap_log = []\<rparr>" 0 "feed (\<lambda>n. [])"] h
  have "buffer_invariant (append_tweet default_scraper (Some (tw ''7'' ''x'')))" by blast
  with h show ?thesis by (simp add: append_tweet_def default_scraper_def tw_def)
qed

end
